theory Spec2Isabelle
  imports
    Main
    "HOL-Library.Char_ord"
    "HOL-Library.List_Lexorder"
    "HOL-Library.Product_Lexorder"
    "HOL-Library.Sublist"
    "HOL-Library.Multiset"
    "HOL-Library.AList"
begin

text \<open>
  A model of the modules \<open>render_engine/site.py\<close> and
  \<open>render_engine/collection.py\<close>: the class \<open>Collection\<close> with its properties
  \<open>pages\<close> and \<open>archive\<close>, the function \<open>hash_content\<close>, and the class \<open>Site\<close>
  with its registration methods and its render pass.  The file system, the shared list
  objects and the calls of the template engine are explicit state; exceptions are
  values.  Left out, as nothing in the model reads them: the time zone that
  \<open>Site.__init__\<close> puts into the environment, the warning that \<open>pages\<close> logs for a
  content path at the file system root, and the progress bar of a verbose render.
  \<open>Collection.from_subcollection\<close> is not modelled: only \<open>get_subcollections\<close>
  would call it, a method the site calls and the class does not define.
\<close>

section \<open>Errors\<close>

text \<open>
  Every exception the modelled code can raise is a value.  A function that can raise
  returns \<open>error + 'a\<close>, with \<open>Inl\<close> the exception; the state reached before the
  exception is not returned (the run is aborted, as in the source, where nothing
  catches these exceptions).
\<close>

datatype error =
    AttributeError | IndexError | KeyError | ValueError | TypeError
  | FileNotFoundError | FileExistsError | NotADirectoryError | IsADirectoryError
  | SameFileError | OSError

section \<open>Paths (pathlib)\<close>

text \<open>
  A \<open>Path\<close> is its tuple of parts, as \<open>PurePosixPath.parts\<close> gives it: an absolute
  path starts with the part \<open>/\<close> (or \<open>//\<close>), the empty tuple is the current
  directory.  Parts named \<open>..\<close> stay as they are (pathlib does not resolve them) and
  there are no symbolic links: two paths name the same file exactly when their parts
  are equal.
\<close>

type_synonym path = "string list"

fun split_sep :: "string \<Rightarrow> string \<Rightarrow> string list" where
  "split_sep acc [] = [acc]"
| "split_sep acc (c # cs) =
     (if c = CHR ''/'' then acc # split_sep [] cs else split_sep (acc @ [c]) cs)"

definition path_root :: "string \<Rightarrow> string" where
  "path_root s =
     (if take 1 s \<noteq> ''/'' then []
      else if take 2 s = ''//'' \<and> take 3 s \<noteq> ''///'' then ''//''
      else ''/'')"

definition Path :: "string \<Rightarrow> path" where
  "Path s =
     (if path_root s = [] then [] else [path_root s]) @
     filter (\<lambda>p. p \<noteq> [] \<and> p \<noteq> ''.'') (split_sep [] s)"

definition is_root :: "string \<Rightarrow> bool" where
  "is_root p = (p = ''/'' \<or> p = ''//'')"

definition is_absolute :: "path \<Rightarrow> bool" where
  "is_absolute p = (case p of [] \<Rightarrow> False | r # _ \<Rightarrow> is_root r)"

definition joinpath :: "path \<Rightarrow> path \<Rightarrow> path" where
  "joinpath a b = (if is_absolute b then b else a @ b)"

definition path_name :: "path \<Rightarrow> string" where
  "path_name p = (if p = [] \<or> (length p = 1 \<and> is_root (hd p)) then [] else last p)"

text \<open>
  \<open>PurePath.suffix\<close>: the part of the name from its last dot on, when that dot is
  neither the first nor the last character of the name.
\<close>

definition name_suffix :: "string \<Rightarrow> string" where
  "name_suffix n =
     (if CHR ''.'' \<notin> set n then []
      else let after = rev (takeWhile (\<lambda>c. c \<noteq> CHR ''.'') (rev n));
               i = length n - length after - 1
           in if 0 < i \<and> i < length n - 1 then drop i n else [])"

definition with_suffix :: "path \<Rightarrow> string \<Rightarrow> error + path" where
  "with_suffix p sfx =
     (if CHR ''/'' \<in> set sfx then Inl ValueError
      else if (sfx \<noteq> [] \<and> take 1 sfx \<noteq> ''.'') \<or> sfx = ''.'' then Inl ValueError
      else let name = path_name p in
        if name = [] then Inl ValueError
        else let old_suffix = name_suffix name;
                 name' = (if old_suffix = [] then name @ sfx
                          else take (length name - length old_suffix) name @ sfx)
             in Inr (butlast p @ [name']))"

text \<open>\<open>str.strip("/")\<close>: leading and trailing slashes removed.\<close>

definition strip_slash :: "string \<Rightarrow> string" where
  "strip_slash s =
     rev (dropWhile (\<lambda>c. c = CHR ''/'') (rev (dropWhile (\<lambda>c. c = CHR ''/'') s)))"

section \<open>The file system\<close>

datatype node = File string | Dir

type_synonym fs = "path \<Rightarrow> node option"

text \<open>The current directory and the root always exist and are directories.\<close>

definition node_at :: "fs \<Rightarrow> path \<Rightarrow> node option" where
  "node_at f p = (if p = [] \<or> (length p = 1 \<and> is_root (hd p)) then Some Dir else f p)"

definition path_exists :: "fs \<Rightarrow> path \<Rightarrow> bool" where
  "path_exists f p = (node_at f p \<noteq> None)"

definition is_dir :: "fs \<Rightarrow> path \<Rightarrow> bool" where
  "is_dir f p = (node_at f p = Some Dir)"

text \<open>
  \<open>Path.mkdir(exist_ok=True)\<close>, without \<open>parents\<close>: an existing directory is left
  alone, an existing file is an error, and the parent must be a directory.
\<close>

definition mkdir :: "fs \<Rightarrow> path \<Rightarrow> error + fs" where
  "mkdir f p =
     (case node_at f p of
        Some Dir \<Rightarrow> Inr f
      | Some (File _) \<Rightarrow> Inl FileExistsError
      | None \<Rightarrow>
          (case node_at f (butlast p) of
             Some Dir \<Rightarrow> Inr (f(p \<mapsto> Dir))
           | Some (File _) \<Rightarrow> Inl NotADirectoryError
           | None \<Rightarrow> Inl FileNotFoundError))"

text \<open>Opening a file for writing and writing the whole text (\<open>Path.write_text\<close>).\<close>

definition write_text :: "fs \<Rightarrow> path \<Rightarrow> string \<Rightarrow> error + fs" where
  "write_text f p content =
     (case node_at f p of
        Some Dir \<Rightarrow> Inl IsADirectoryError
      | _ \<Rightarrow>
          (case node_at f (butlast p) of
             Some Dir \<Rightarrow> Inr (f(p \<mapsto> File content))
           | Some (File _) \<Rightarrow> Inl NotADirectoryError
           | None \<Rightarrow> Inl FileNotFoundError))"

text \<open>
  \<open>shutil.copy(src, dst)\<close>: a destination that is a directory receives the file under
  the source's name; copying a file onto itself is an error.
\<close>

definition shutil_copy :: "fs \<Rightarrow> path \<Rightarrow> path \<Rightarrow> error + fs" where
  "shutil_copy f src dst =
     (let dst' = (if is_dir f dst then dst @ [path_name src] else dst) in
      if src = dst' \<and> path_exists f src then Inl SameFileError
      else case node_at f src of
        None \<Rightarrow> Inl FileNotFoundError
      | Some Dir \<Rightarrow> Inl IsADirectoryError
      | Some (File content) \<Rightarrow> write_text f dst' content)"

text \<open>\<open>shutil.rmtree\<close>: the directory and everything below it disappear.\<close>

definition rmtree :: "fs \<Rightarrow> path \<Rightarrow> error + fs" where
  "rmtree f p =
     (if \<not> is_dir f p then Inl NotADirectoryError
      else if p = [] \<or> (length p = 1 \<and> is_root (hd p)) then Inl OSError
      else Inr (\<lambda>q. if prefix p q then None else f q))"

section \<open>Pages and engines\<close>

text \<open>
  The classes \<open>Page\<close> and \<open>Engine\<close> are imported by the modelled modules and not
  defined in them; a page carries the attributes the modelled code reads or writes.
  \<open>base_content\<close> is \<open>None\<close> for a page without that attribute; \<open>engine\<close> is
  \<open>None\<close> for a page whose \<open>engine\<close> attribute is missing or falsy (the archive page
  sets it to the empty string).
\<close>

datatype engine = Engine (extension: string) (engine_name: string)

datatype page = Page
  (slug: string)
  (title: string)
  (routes: "string list")
  (template: string)
  (always_refresh: bool)
  (base_content: "string option")
  (engine: "engine option")
  (pages_of: "page list")
  (link: string)

definition set_slug :: "string \<Rightarrow> page \<Rightarrow> page" where
  "set_slug v p = Page v (title p) (routes p) (template p) (always_refresh p)
     (base_content p) (engine p) (pages_of p) (link p)"

definition set_title :: "string \<Rightarrow> page \<Rightarrow> page" where
  "set_title v p = Page (slug p) v (routes p) (template p) (always_refresh p)
     (base_content p) (engine p) (pages_of p) (link p)"

definition set_routes :: "string list \<Rightarrow> page \<Rightarrow> page" where
  "set_routes v p = Page (slug p) (title p) v (template p) (always_refresh p)
     (base_content p) (engine p) (pages_of p) (link p)"

definition set_template :: "string \<Rightarrow> page \<Rightarrow> page" where
  "set_template v p = Page (slug p) (title p) (routes p) v (always_refresh p)
     (base_content p) (engine p) (pages_of p) (link p)"

definition set_engine :: "engine option \<Rightarrow> page \<Rightarrow> page" where
  "set_engine v p = Page (slug p) (title p) (routes p) (template p) (always_refresh p)
     (base_content p) v (pages_of p) (link p)"

definition set_pages :: "page list \<Rightarrow> page \<Rightarrow> page" where
  "set_pages v p = Page (slug p) (title p) (routes p) (template p) (always_refresh p)
     (base_content p) (engine p) v (link p)"

definition set_link :: "string \<Rightarrow> page \<Rightarrow> page" where
  "set_link v p = Page (slug p) (title p) (routes p) (template p) (always_refresh p)
     (base_content p) (engine p) (pages_of p) v"

section \<open>Fingerprints\<close>

text \<open>
  \<open>hash_content\<close>: the SHA-1 hex digest of the page's \<open>base_content\<close> (the empty
  string when the page has no such attribute), followed by a newline.  The digest
  function of \<open>hashlib\<close> is the parameter \<open>sha1\<close>.
\<close>

definition hash_content :: "(string \<Rightarrow> string) \<Rightarrow> page \<Rightarrow> string" where
  "hash_content sha1 route =
     sha1 (case base_content route of None \<Rightarrow> [] | Some s \<Rightarrow> s) @ [CHR 0x0A]"

section \<open>The cache file\<close>

definition LF :: char where "LF = CHR 0x0A"
definition CR :: char where "CR = CHR 0x0D"

text \<open>
  A text file is read with universal newlines: \<open>\r\n\<close> and a lone \<open>\r\<close> arrive as
  \<open>\n\<close>.
\<close>

fun universal_newlines :: "string \<Rightarrow> string" where
  "universal_newlines [] = []"
| "universal_newlines [c] = [if c = CR then LF else c]"
| "universal_newlines (c # d # cs) =
     (if c = CR \<and> d = LF then LF # universal_newlines cs
      else if c = CR then LF # universal_newlines (d # cs)
      else c # universal_newlines (d # cs))"

definition read_text :: "fs \<Rightarrow> path \<Rightarrow> error + string" where
  "read_text f p =
     (case node_at f p of
        None \<Rightarrow> Inl FileNotFoundError
      | Some Dir \<Rightarrow> Inl IsADirectoryError
      | Some (File content) \<Rightarrow> Inr (universal_newlines content))"




section \<open>Collections and the site\<close>

text \<open>
  A list object that several names can share lives in a store, at an address: the
  class attribute \<open>content_items\<close> of \<open>Collection\<close> is one list object, which every
  collection that does not override the attribute shares.  \<open>c_title\<close>, \<open>c_slug\<close> and
  \<open>feeds\<close> are \<open>None\<close> when the collection's class does not define the attribute
  (the class \<open>Collection\<close> itself defines none of them).  \<open>c_includes\<close>,
  \<open>c_routes\<close> and \<open>c_template\<close> are the attributes \<open>includes\<close>, \<open>routes\<close> and
  \<open>template\<close>; \<open>class_name\<close> is \<open>self.__class__.__name__\<close>;
  \<open>archive_content_type\<close> is the page that \<open>archive_content_type(no_index=True)\<close>
  constructs.
\<close>

type_synonym store = "nat \<Rightarrow> page list"

record 'k collection =
  c_title :: "string option"
  c_slug :: "string option"
  class_name :: string
  page_content_type :: "fs \<Rightarrow> path \<Rightarrow> page"
  content_path :: string
  content_items :: nat
  c_template :: string
  c_includes :: "string list"
  c_routes :: "string list"
  subcollections :: "string list"
  has_archive :: bool
  archive_template :: string
  archive_slug :: string
  archive_content_type :: page
  archive_reverse :: bool
  archive_default_sort :: "page \<Rightarrow> 'k"
  feeds :: "page list option"

text \<open>
  The site object, with the parts of the process state its methods act on: the file
  system, the store of shared lists, and the log of the calls of \<open>engine.render\<close>.
  A dictionary is an association list in insertion order.
\<close>

record 'k site =
  site_routes :: "page list"
  collections :: "(string \<times> 'k collection) list"
  site_subcollections :: "(string \<times> 'k collection list) list"
  output_path :: path
  static_path :: path
  SITE_TITLE :: string
  SITE_URL :: string
  strict :: bool
  default_engine :: engine
  rss_engine :: engine
  cache_file :: path
  hashes :: "string set"
  files :: fs
  heap :: store
  engine_calls :: "(engine \<times> page) list"

text \<open>
  What the modelled code calls and does not define: the digest of \<open>hashlib\<close>,
  \<open>Path.glob\<close>, \<open>shutil.copytree\<close>, the order in which a set is iterated, the
  render method of the engines, what iterating over a page object yields, and the
  method \<open>get_subcollections\<close> of a collection (called by the site, absent from the
  class; it returns a dictionary from each grouping to its list of subcollections and,
  as it reads \<open>pages\<close>, may change the store of shared lists).
\<close>

record 'k deps =
  sha1 :: "string \<Rightarrow> string"
  glob :: "fs \<Rightarrow> path \<Rightarrow> string \<Rightarrow> path list"
  copytree :: "fs \<Rightarrow> path \<Rightarrow> path \<Rightarrow> error + fs"
  set_iter :: "string set \<Rightarrow> string list"
  engine_render :: "engine \<Rightarrow> 'k site \<Rightarrow> page \<Rightarrow> string"
  page_iter :: "page \<Rightarrow> error + page list"
  get_subcollections ::
    "'k collection \<Rightarrow> 'k site \<Rightarrow> error + ((string \<times> 'k collection list) list \<times> store)"

subsection \<open>Collection\<close>

text \<open>
  \<open>sorted(xs, key=..., reverse=...)\<close>: a stable sort; with \<open>reverse\<close> the list is
  reversed, sorted and reversed again, so equal keys keep their order.
\<close>

definition py_sorted :: "('a \<Rightarrow> 'k::linorder) \<Rightarrow> bool \<Rightarrow> 'a list \<Rightarrow> 'a list" where
  "py_sorted key reverse xs =
     (if reverse then rev (sort_key key (rev xs)) else sort_key key xs)"

text \<open>
  The property \<open>Collection.pages\<close>.  \<open>_pages\<close> is the list object \<open>content_items\<close>
  itself, not a copy: \<open>append\<close> changes it in the store.
\<close>

definition pages :: "'k deps \<Rightarrow> 'k collection \<Rightarrow> 'k site \<Rightarrow> page list \<times> 'k site" where
  "pages d c s =
     (let pages' = content_items c in
      if \<not> path_exists (files s) (Path (content_path c)) then (heap s pages', s)
      else
        let found = concat (map (\<lambda>pattern.
                      map (\<lambda>filepath.
                             set_template (c_template c)
                               (set_routes (c_routes c) (page_content_type c (files s) filepath)))
                          (glob d (files s) (Path (content_path c)) pattern))
                      (c_includes c));
            s' = s\<lparr>heap := (heap s)(pages' := heap s pages' @ found)\<rparr>
        in (heap s' pages', s'))"

text \<open>The property \<open>Collection.archive\<close>.\<close>

definition archive :: "('k::linorder) deps \<Rightarrow> 'k collection \<Rightarrow> 'k site \<Rightarrow> page \<times> 'k site" where
  "archive d c s =
     (let archive_page = archive_content_type c;
          archive_page = set_template (archive_template c) archive_page;
          archive_page = set_slug (archive_slug c) archive_page;
          archive_page = set_engine None archive_page;
          archive_page = set_title (class_name c) archive_page;
          (ps, s') = pages d c s;
          archive_page = set_pages (py_sorted (archive_default_sort c) (archive_reverse c) ps)
                           archive_page
      in (archive_page, s'))"

subsection \<open>Site: construction and registration\<close>





text \<open>
  \<open>for archive in collection.archive: self.routes.append(archive)\<close>: the archive is
  one page object, and the loop appends whatever iterating over it yields.
\<close>

definition append_archive ::
  "('k::linorder) deps \<Rightarrow> 'k collection \<Rightarrow> 'k site \<Rightarrow> error + 'k site" where
  "append_archive d c s =
     (let (a, s') = archive d c s in
      case page_iter d a of
        Inl e \<Rightarrow> Inl e
      | Inr items \<Rightarrow> Inr (s'\<lparr>site_routes := site_routes s' @ items\<rparr>))"


definition register_route :: "page \<Rightarrow> 'k site \<Rightarrow> 'k site" where
  "register_route route s = s\<lparr>site_routes := site_routes s @ [route]\<rparr>"

subsection \<open>Site: rendering one page\<close>

definition is_unique :: "'k deps \<Rightarrow> 'k site \<Rightarrow> path \<Rightarrow> page \<Rightarrow> bool" where
  "is_unique d s filepath page =
     (if always_refresh page then True
      else if \<not> path_exists (files s) filepath then True
      else hash_content (sha1 d) page \<notin> hashes s)"

text \<open>\<open>str\<close> of a path, for the messages.\<close>

fun join_parts :: "string list \<Rightarrow> string" where
  "join_parts [] = []"
| "join_parts [p] = p"
| "join_parts (p # q # ps) = p @ ''/'' @ join_parts (q # ps)"

definition path_str :: "path \<Rightarrow> string" where
  "path_str p =
     (if p = [] then ''.''
      else if is_root (hd p) then hd p @ join_parts (tl p)
      else join_parts p)"

text \<open>
  The output directory of a route, \<open>self.output_path.joinpath(route.strip("/"))\<close>,
  and the engine of a page, \<open>page.engine\<close> or else the site's default engine.
\<close>

definition route_dir :: "'k site \<Rightarrow> string \<Rightarrow> path" where
  "route_dir s r = joinpath (output_path s) (Path (strip_slash r))"

definition page_engine :: "'k site \<Rightarrow> page \<Rightarrow> engine" where
  "page_engine s page = (case engine page of Some e \<Rightarrow> e | None \<Rightarrow> default_engine s)"

definition written :: "path \<Rightarrow> string" where
  "written filename = path_str filename @ '' written''"

definition skipped :: "path \<Rightarrow> string" where
  "skipped filename = path_str filename @ '' skipped''"

text \<open>The loop over \<open>page.routes[1:]\<close>: one directory and one copy for each route.\<close>

fun copy_routes :: "'k site \<Rightarrow> path \<Rightarrow> path \<Rightarrow> string list \<Rightarrow> error + 'k site" where
  "copy_routes s filepath filename [] = Inr s"
| "copy_routes s filepath filename (new_route # rest) =
     (let new_route = route_dir s new_route in
      case mkdir (files s) new_route of
        Inl e \<Rightarrow> Inl e
      | Inr f \<Rightarrow>
          (let new_filepath = joinpath new_route filename in
           (case shutil_copy f filepath new_filepath of
              Inl e \<Rightarrow> Inl e
            | Inr f' \<Rightarrow> copy_routes (s\<lparr>files := f'\<rparr>) filepath filename rest)))"

text \<open>
  \<open>Site._render_output\<close>.  The context that \<open>get_public_attributes\<close> collects is made
  of the attributes of the site and of the page, so the engine's render function is
  given both.
\<close>

definition render_output :: "'k deps \<Rightarrow> 'k site \<Rightarrow> page \<Rightarrow> error + ('k site \<times> string)" where
  "render_output d s page =
     (let eng = page_engine s page in
      case routes page of
        [] \<Rightarrow> Inl IndexError
      | first_route # more_routes \<Rightarrow>
          (let route = route_dir s first_route in
           (case mkdir (files s) route of
              Inl e \<Rightarrow> Inl e
            | Inr f \<Rightarrow>
                (let s = s\<lparr>files := f\<rparr> in
                 (case with_suffix (Path (slug page)) (extension eng) of
                    Inl e \<Rightarrow> Inl e
                  | Inr filename \<Rightarrow>
                      (let filepath = joinpath route filename;
                           unique_file = is_unique d s filepath page
                       in if unique_file then
                            (let content = engine_render d eng s page;
                                 s = s\<lparr>engine_calls := engine_calls s @ [(eng, page)]\<rparr>;
                                 s = (if \<not> always_refresh page
                                      then s\<lparr>hashes :=
                                             insert (hash_content (sha1 d) page) (hashes s)\<rparr>
                                      else s)
                             in (case write_text (files s) filepath content of
                                   Inl e \<Rightarrow> Inl e
                                 | Inr f' \<Rightarrow>
                                     (case copy_routes (s\<lparr>files := f'\<rparr>) filepath filename
                                             more_routes of
                                        Inl e \<Rightarrow> Inl e
                                      | Inr s' \<Rightarrow> Inr (s', written filename))))
                          else Inr (s, skipped filename)))))))"

subsection \<open>Site: subcollections\<close>

text \<open>
  The sort key \<open>(len(x.pages), x.title)\<close> is computed once for each subcollection, in
  list order, before the list is sorted; each computation reads the property
  \<open>pages\<close>.
\<close>

fun subcollection_keys ::
  "'k deps \<Rightarrow> 'k collection list \<Rightarrow> 'k site \<Rightarrow> error + ((nat \<times> string) list \<times> 'k site)" where
  "subcollection_keys d [] s = Inr ([], s)"
| "subcollection_keys d (x # xs) s =
     (let (ps, s') = pages d x s in
      case c_title x of
        None \<Rightarrow> Inl AttributeError
      | Some t \<Rightarrow>
          (case subcollection_keys d xs s' of
             Inl e \<Rightarrow> Inl e
           | Inr (ks, s'') \<Rightarrow> Inr ((length ps, t) # ks, s'')))"

definition sorted_by_keys :: "('k::linorder) list \<Rightarrow> 'a list \<Rightarrow> 'a list" where
  "sorted_by_keys ks xs = map snd (py_sorted fst True (zip ks xs))"

text \<open>The loop \<open>for subcollection in sorted_group\<close>.\<close>

fun append_group ::
  "('k::linorder) deps \<Rightarrow> string \<Rightarrow> 'k collection list \<Rightarrow> 'k collection list \<Rightarrow> 'k site
     \<Rightarrow> error + 'k site" where
  "append_group d subcollection_group sorted_group [] s = Inr s"
| "append_group d subcollection_group sorted_group (subcollection # rest) s =
     (let s = s\<lparr>site_subcollections :=
                 AList.update subcollection_group sorted_group (site_subcollections s)\<rparr>
      in case append_archive d subcollection s of
           Inl e \<Rightarrow> Inl e
         | Inr s' \<Rightarrow> append_group d subcollection_group sorted_group rest s')"

text \<open>The body of the loop \<open>for subcollection_group in collection.get_subcollections()\<close>.\<close>

definition render_group ::
  "('k::linorder) deps \<Rightarrow> 'k collection \<Rightarrow> string \<Rightarrow> 'k site \<Rightarrow> error + 'k site" where
  "render_group d c subcollection_group s =
     (case get_subcollections d c s of
        Inl e \<Rightarrow> Inl e
      | Inr (groups, h) \<Rightarrow>
          (case map_of groups subcollection_group of
             None \<Rightarrow> Inl KeyError
           | Some members \<Rightarrow>
               (case subcollection_keys d members (s\<lparr>heap := h\<rparr>) of
                  Inl e \<Rightarrow> Inl e
                | Inr (ks, s2) \<Rightarrow>
                    (let sorted_group = sorted_by_keys ks members
                     in append_group d subcollection_group sorted_group sorted_group s2))))"

fun render_groups ::
  "('k::linorder) deps \<Rightarrow> 'k collection \<Rightarrow> string list \<Rightarrow> 'k site \<Rightarrow> error + 'k site" where
  "render_groups d c [] s = Inr s"
| "render_groups d c (g # gs) s =
     (case render_group d c g s of
        Inl e \<Rightarrow> Inl e
      | Inr s' \<Rightarrow> render_groups d c gs s')"

text \<open>\<open>Site._render_subcollections\<close>: the loop over the registered collections.\<close>

fun render_collections ::
  "('k::linorder) deps \<Rightarrow> 'k collection list \<Rightarrow> 'k site \<Rightarrow> error + 'k site" where
  "render_collections d [] s = Inr s"
| "render_collections d (c # cs) s =
     (if subcollections c \<noteq> [] then
        (case get_subcollections d c s of
           Inl e \<Rightarrow> Inl e
         | Inr (groups, h) \<Rightarrow>
             (case render_groups d c (map fst groups) (s\<lparr>heap := h\<rparr>) of
                Inl e \<Rightarrow> Inl e
              | Inr s2 \<Rightarrow> render_collections d cs s2))
      else render_collections d cs s)"

definition render_subcollections :: "('k::linorder) deps \<Rightarrow> 'k site \<Rightarrow> error + 'k site" where
  "render_subcollections d s = render_collections d (map snd (collections s)) s"

subsection \<open>Site: the render pass\<close>

text \<open>
  The loop \<open>for page in self.routes\<close>.  The messages of \<open>_render_output\<close> are kept in
  order; the source shows them on the progress bar when \<open>verbose\<close> is set and drops
  them otherwise.
\<close>

fun render_pages :: "'k deps \<Rightarrow> page list \<Rightarrow> 'k site \<Rightarrow> error + ('k site \<times> string list)" where
  "render_pages d [] s = Inr (s, [])"
| "render_pages d (page # rest) s =
     (case render_output d s page of
        Inl e \<Rightarrow> Inl e
      | Inr (s', msg) \<Rightarrow>
          (case render_pages d rest s' of
             Inl e \<Rightarrow> Inl e
           | Inr (s'', msgs) \<Rightarrow> Inr (s'', msg # msgs)))"

text \<open>The block \<open>if self.strict or strict\<close>.\<close>

definition clean_output :: "'k site \<Rightarrow> error + 'k site" where
  "clean_output s =
     (case (if path_exists (files s) (output_path s) then rmtree (files s) (output_path s)
            else Inr (files s)) of
        Inl e \<Rightarrow> Inl e
      | Inr f \<Rightarrow> Inr (s\<lparr>files := f, hashes := {}\<rparr>))"

definition copy_static :: "'k deps \<Rightarrow> 'k site \<Rightarrow> error + 'k site" where
  "copy_static d s =
     (if is_dir (files s) (static_path s) then
        (case copytree d (files s) (static_path s) (joinpath (output_path s) (static_path s)) of
           Inl e \<Rightarrow> Inl e
         | Inr f \<Rightarrow> Inr (s\<lparr>files := f\<rparr>))
      else Inr s)"

definition write_cache :: "'k deps \<Rightarrow> 'k site \<Rightarrow> error + 'k site" where
  "write_cache d s =
     (case write_text (files s) (cache_file s) (concat (set_iter d (hashes s))) of
        Inl e \<Rightarrow> Inl e
      | Inr f \<Rightarrow> Inr (s\<lparr>files := f\<rparr>))"

text \<open>\<open>Site.render\<close>.\<close>

definition render ::
  "('k::linorder) deps \<Rightarrow> 'k site \<Rightarrow> bool \<Rightarrow> bool \<Rightarrow> bool \<Rightarrow> error + ('k site \<times> string list)" where
  "render d s verbose dry_run strict_arg =
     (let strict_arg = (if dry_run then False else strict_arg);
          verbose = (if dry_run then True else verbose)
      in case (if strict s \<or> strict_arg then clean_output s else Inr s) of
           Inl e \<Rightarrow> Inl e
         | Inr s \<Rightarrow>
             (case mkdir (files s) (output_path s) of
                Inl e \<Rightarrow> Inl e
              | Inr f \<Rightarrow>
                  (case copy_static d (s\<lparr>files := f\<rparr>) of
                     Inl e \<Rightarrow> Inl e
                   | Inr s \<Rightarrow>
                       (case render_subcollections d s of
                          Inl e \<Rightarrow> Inl e
                        | Inr s \<Rightarrow>
                            (case render_pages d (site_routes s) s of
                               Inl e \<Rightarrow> Inl e
                             | Inr (s, msgs) \<Rightarrow>
                                 (case write_cache d s of
                                    Inl e \<Rightarrow> Inl e
                                  | Inr s \<Rightarrow> Inr (s, msgs)))))))"

section \<open>Notions used in the statements\<close>

text \<open>
  The site after \<open>_render_output\<close> has rendered a page and written the first file:
  one more engine call, the fingerprint added unless the page is always refreshed.
\<close>

definition after_render :: "'k deps \<Rightarrow> 'k site \<Rightarrow> page \<Rightarrow> fs \<Rightarrow> 'k site" where
  "after_render d s page f =
     s\<lparr>engine_calls := engine_calls s @ [(page_engine s page, page)],
       hashes := (if always_refresh page then hashes s
                  else insert (hash_content (sha1 d) page) (hashes s)),
       files := f\<rparr>"

text \<open>
  \<open>keeps c f f'\<close>: every directory of \<open>f\<close> and every file of \<open>f\<close> with content \<open>c\<close>
  is still there in \<open>f'\<close>.  \<open>holds_copy f target name c\<close>: \<open>shutil.copy\<close> has put
  the content \<open>c\<close> at \<open>target\<close>, or inside it under \<open>name\<close> when \<open>target\<close> is a
  directory.
\<close>

definition keeps :: "string \<Rightarrow> fs \<Rightarrow> fs \<Rightarrow> bool" where
  "keeps c f f' = (\<forall>q. (node_at f q = Some Dir \<longrightarrow> node_at f' q = Some Dir) \<and>
                       (node_at f q = Some (File c) \<longrightarrow> node_at f' q = Some (File c)))"

definition holds_copy :: "fs \<Rightarrow> path \<Rightarrow> string \<Rightarrow> string \<Rightarrow> bool" where
  "holds_copy f target name c =
     (node_at f target = Some (File c) \<or>
      (is_dir f target \<and> node_at f (target @ [name]) = Some (File c)))"

text \<open>The pages that one access to \<open>Collection.pages\<close> makes from the files it finds.\<close>

definition found_pages :: "'k deps \<Rightarrow> 'k collection \<Rightarrow> 'k site \<Rightarrow> page list" where
  "found_pages d c s =
     concat (map (\<lambda>pattern.
        map (\<lambda>filepath. set_template (c_template c)
                (set_routes (c_routes c) (page_content_type c (files s) filepath)))
            (glob d (files s) (Path (content_path c)) pattern))
        (c_includes c))"

text \<open>
  A hex digest as \<open>hashlib\<close> returns it for SHA-1: forty characters among \<open>0-9\<close> and
  \<open>a-f\<close>.  A line of the cache file: text without a line boundary, ended by a
  newline.
\<close>

definition is_hexdigit :: "char \<Rightarrow> bool" where
  "is_hexdigit c =
     (let n = (of_char c :: nat) in (48 \<le> n \<and> n \<le> 57) \<or> (97 \<le> n \<and> n \<le> 102))"

definition is_hexdigest :: "string \<Rightarrow> bool" where
  "is_hexdigest x = (length x = 40 \<and> list_all is_hexdigit x)"




text \<open>
  A message of \<open>_render_output\<close> that reports a page written.  The fingerprints of
  the pages before position \<open>i\<close> of a list that are not always refreshed: the ones a
  pass can have added to the fingerprint set before it comes to the page at \<open>i\<close>.
  \<open>frame s s'\<close>: \<open>s'\<close> differs from \<open>s\<close> at most in the registry, the dictionaries
  and the store of shared lists.
\<close>

definition reports_written :: "string \<Rightarrow> bool" where
  "reports_written msg = (\<exists>filename. msg = written filename)"

definition earlier_fingerprints :: "'k deps \<Rightarrow> page list \<Rightarrow> nat \<Rightarrow> string set" where
  "earlier_fingerprints d ps i =
     hash_content (sha1 d) ` {p \<in> set (take i ps). \<not> always_refresh p}"

definition frame :: "'k site \<Rightarrow> 'k site \<Rightarrow> bool" where
  "frame s s' = (hashes s' = hashes s \<and> engine_calls s' = engine_calls s \<and>
     default_engine s' = default_engine s \<and> cache_file s' = cache_file s \<and>
     output_path s' = output_path s \<and> files s' = files s)"

section \<open>Example data\<close>

text \<open>
  A small site for the concrete instances below: one engine, an output directory
  that exists, and stand-ins for the operations the code takes from elsewhere.
\<close>

definition ex_engine :: engine where
  "ex_engine = Engine ''.html'' ''jinja''"

definition ex_sha1 :: "string \<Rightarrow> string" where
  "ex_sha1 x =
     (if x = [] then ''da39a3ee5e6b4b0d3255bfef95601890afd80709''
      else if x = ''abc'' then ''a9993e364706816aba3e25717850c26c9cd0d89d''
      else ''0000000000000000000000000000000000000000'')"

definition ex_page :: page where
  "ex_page = Page ''x'' ''X'' [''a'', ''/b/''] ''page.html'' False (Some ''abc'') None [] []"

definition ex_deps :: "string deps" where
  "ex_deps = \<lparr>
     sha1 = ex_sha1,
     glob = (\<lambda>f p pattern.
        if pattern = ''*.md'' then [p @ [''c.md''], p @ [''a.md''], p @ [''b.md'']] else []),
     copytree = (\<lambda>f src dst. Inr f),
     set_iter = (\<lambda>H. filter (\<lambda>h. h \<in> H)
        [ex_sha1 [] @ [LF], ex_sha1 ''abc'' @ [LF], ex_sha1 ''z'' @ [LF]]),
     engine_render = (\<lambda>e s p. ''<h1>'' @ title p @ ''</h1>''),
     page_iter = (\<lambda>p. Inr [p]),
     get_subcollections = (\<lambda>c s. Inr ([], heap s)) \<rparr>"

definition ex_site :: "string site" where
  "ex_site = \<lparr>
     site_routes = [],
     collections = [],
     site_subcollections = [],
     output_path = [''output''],
     static_path = [''static''],
     SITE_TITLE = ''Untitled Site'',
     SITE_URL = ''https://example.com'',
     strict = False,
     default_engine = ex_engine,
     rss_engine = Engine ''.rss'' ''rss'',
     cache_file = [''.routes_cache''],
     hashes = {},
     files = [[''output''] \<mapsto> Dir],
     heap = (\<lambda>a. []),
     engine_calls = [] \<rparr>"

definition ex_fresh :: page where
  "ex_fresh = Page ''x'' ''X'' [''a''] ''page.html'' True (Some ''abc'') None [] []"

text \<open>The example site after \<open>ex_page\<close> has been rendered, and after \<open>ex_fresh\<close> too.\<close>

definition ex_rendered :: "string site" where
  "ex_rendered = ex_site\<lparr>
     files := [[''output''] \<mapsto> Dir, [''output'', ''a''] \<mapsto> Dir,
               [''output'', ''a'', ''x.html''] \<mapsto> File ''<h1>X</h1>'',
               [''output'', ''b''] \<mapsto> Dir,
               [''output'', ''b'', ''x.html''] \<mapsto> File ''<h1>X</h1>''],
     hashes := {''a9993e364706816aba3e25717850c26c9cd0d89d'' @ [LF]},
     engine_calls := [(ex_engine, ex_page)]\<rparr>"

definition ex_refreshed :: "string site" where
  "ex_refreshed = ex_rendered\<lparr>engine_calls := [(ex_engine, ex_page), (ex_engine, ex_fresh)]\<rparr>"

text \<open>
  A collection over the directory \<open>content\<close>, where \<open>glob\<close> finds \<open>c.md\<close>, \<open>a.md\<close>
  and \<open>b.md\<close> in this order; a page made from a file has the file's stem as its slug.
  The collection keeps the class attribute \<open>content_items\<close>, the list at address 0.
\<close>

definition ex_page_of :: "fs \<Rightarrow> path \<Rightarrow> page" where
  "ex_page_of f p =
     Page (takeWhile (\<lambda>c. c \<noteq> CHR ''.'') (last p)) [] [] [] False
       (case f p of Some (File c) \<Rightarrow> Some c | _ \<Rightarrow> None) None [] []"

definition ex_blog :: "string collection" where
  "ex_blog = \<lparr>
     c_title = Some ''Blog'',
     c_slug = Some ''blog'',
     class_name = ''Blog'',
     page_content_type = ex_page_of,
     content_path = ''content'',
     content_items = 0,
     c_template = ''page.html'',
     c_includes = [''*.md'', ''*.html''],
     c_routes = [[]],
     subcollections = [],
     has_archive = False,
     archive_template = ''archive.html'',
     archive_slug = ''all_posts'',
     archive_content_type = Page [] [] [[]] [] False None None [] [],
     archive_reverse = False,
     archive_default_sort = slug,
     feeds = Some [] \<rparr>"

definition ex_content :: "string site" where
  "ex_content = ex_site\<lparr>files :=
     [[''output''] \<mapsto> Dir, [''content''] \<mapsto> Dir,
      [''content'', ''c.md''] \<mapsto> File ''gamma'',
      [''content'', ''a.md''] \<mapsto> File ''alpha'',
      [''content'', ''b.md''] \<mapsto> File ''beta'']\<rparr>"

definition ex_post :: "string \<Rightarrow> string \<Rightarrow> page" where
  "ex_post name text = Page name [] [[]] ''page.html'' False (Some text) None [] []"














text \<open>
  The example site after its first render, with \<open>ex_page\<close> and the always refreshed
  \<open>ex_fresh\<close> in the registry.
\<close>

definition ex_again :: "string site" where
  "ex_again = ex_rendered\<lparr>site_routes := [ex_page, ex_fresh]\<rparr>"

section \<open>Evaluation of the examples\<close>

lemmas path_defs = Path_def path_root_def is_root_def is_absolute_def joinpath_def
  path_name_def name_suffix_def with_suffix_def strip_slash_def route_dir_def
  path_str_def written_def skipped_def

lemmas fs_defs = node_at_def path_exists_def is_dir_def mkdir_def write_text_def
  shutil_copy_def rmtree_def read_text_def

lemmas ex_defs = ex_site_def ex_deps_def ex_engine_def ex_page_def ex_fresh_def ex_sha1_def
  ex_rendered_def ex_refreshed_def LF_def CR_def

section \<open>Rendering one page\<close>

lemma written_neq_skipped: "written a \<noteq> skipped b"
proof
  assume "written a = skipped b"
  then have "last (written a) = last (skipped b)" by simp
  then show False by (simp add: written_def skipped_def)
qed

text \<open>\<open>_render_output\<close> with its local variables substituted.\<close>

lemma render_output_unfold:
  "render_output d s page =
     (case routes page of
        [] \<Rightarrow> Inl IndexError
      | first_route # more_routes \<Rightarrow>
          (case mkdir (files s) (route_dir s first_route) of
             Inl e \<Rightarrow> Inl e
           | Inr f \<Rightarrow>
               (case with_suffix (Path (slug page)) (extension (page_engine s page)) of
                  Inl e \<Rightarrow> Inl e
                | Inr filename \<Rightarrow>
                    if is_unique d (s\<lparr>files := f\<rparr>)
                         (joinpath (route_dir s first_route) filename) page
                    then
                      (case write_text f (joinpath (route_dir s first_route) filename)
                              (engine_render d (page_engine s page) (s\<lparr>files := f\<rparr>) page) of
                         Inl e \<Rightarrow> Inl e
                       | Inr f' \<Rightarrow>
                           (case copy_routes (after_render d s page f')
                                   (joinpath (route_dir s first_route) filename) filename
                                   more_routes of
                              Inl e \<Rightarrow> Inl e
                            | Inr s' \<Rightarrow> Inr (s', written filename)))
                    else Inr (s\<lparr>files := f\<rparr>, skipped filename))))"
  by (cases "always_refresh page")
     (simp_all add: render_output_def Let_def after_render_def route_dir_def page_engine_def
        split: list.splits sum.splits option.splits)

lemma render_output_Inr:
  assumes "render_output d s page = Inr (s', msg)"
  shows "\<exists>first_route more_routes f filename.
    routes page = first_route # more_routes \<and>
    mkdir (files s) (route_dir s first_route) = Inr f \<and>
    with_suffix (Path (slug page)) (extension (page_engine s page)) = Inr filename \<and>
    (if is_unique d (s\<lparr>files := f\<rparr>) (joinpath (route_dir s first_route) filename) page
     then msg = written filename \<and>
         (\<exists>f'. write_text f (joinpath (route_dir s first_route) filename)
                  (engine_render d (page_engine s page) (s\<lparr>files := f\<rparr>) page) = Inr f' \<and>
           copy_routes (after_render d s page f')
             (joinpath (route_dir s first_route) filename) filename more_routes = Inr s')
     else s' = s\<lparr>files := f\<rparr> \<and> msg = skipped filename)"
  using assms unfolding render_output_unfold
  by (auto split: list.splits sum.splits if_splits)

subsection \<open>The file system operations\<close>

lemma keeps_refl: "keeps c f f"
  by (simp add: keeps_def)

lemma keeps_trans: "keeps c f g \<Longrightarrow> keeps c g h \<Longrightarrow> keeps c f h"
  by (simp add: keeps_def)

lemma mkdir_keeps: "mkdir f p = Inr f' \<Longrightarrow> keeps c f f'"
  by (auto simp: mkdir_def keeps_def node_at_def split: option.splits node.splits if_splits)

lemma write_text_at: "write_text f p c = Inr f' \<Longrightarrow> node_at f' p = Some (File c)"
  by (auto simp: write_text_def node_at_def split: option.splits node.splits if_splits)

lemma write_text_keeps: "write_text f p c = Inr f' \<Longrightarrow> keeps c f f'"
  by (auto simp: write_text_def keeps_def node_at_def split: option.splits node.splits if_splits)

lemma shutil_copy_keeps:
  "shutil_copy f src dst = Inr f' \<Longrightarrow> node_at f src = Some (File c) \<Longrightarrow> keeps c f f'"
  by (auto simp: shutil_copy_def Let_def dest: write_text_keeps split: if_splits)

lemma shutil_copy_at:
  "shutil_copy f src dst = Inr f' \<Longrightarrow> node_at f src = Some (File c) \<Longrightarrow>
     holds_copy f' dst (path_name src) c"
  by (auto simp: shutil_copy_def holds_copy_def Let_def is_dir_def
      dest: write_text_at write_text_keeps[unfolded keeps_def] split: if_splits)

lemma holds_copy_keeps: "keeps c f f' \<Longrightarrow> holds_copy f t n c \<Longrightarrow> holds_copy f' t n c"
  by (auto simp: holds_copy_def keeps_def is_dir_def)

lemma route_dir_files [simp]: "route_dir (s\<lparr>files := f\<rparr>) r = route_dir s r"
  by (simp add: route_dir_def)

text \<open>The loop over the further routes changes nothing but the file system.\<close>

lemma copy_routes_fields:
  "copy_routes s fp fn rs = Inr s' \<Longrightarrow>
     hashes s' = hashes s \<and> engine_calls s' = engine_calls s \<and>
     site_routes s' = site_routes s \<and> output_path s' = output_path s \<and>
     default_engine s' = default_engine s \<and> cache_file s' = cache_file s"
proof (induction rs arbitrary: s)
  case Nil
  then show ?case by simp
next
  case (Cons r rs)
  then obtain f' where "copy_routes (s\<lparr>files := f'\<rparr>) fp fn rs = Inr s'"
    by (auto simp: Let_def split: sum.splits)
  from Cons.IH[OF this] show ?case by simp
qed

lemma copy_routes_result:
  assumes "copy_routes s fp fn rs = Inr s'" and "node_at (files s) fp = Some (File c)"
  shows "keeps c (files s) (files s') \<and>
         (\<forall>r \<in> set rs. holds_copy (files s') (joinpath (route_dir s r) fn) (path_name fp) c)"
  using assms
proof (induction rs arbitrary: s)
  case Nil
  then show ?case by (simp add: keeps_refl)
next
  case (Cons r rs)
  from Cons.prems(1) obtain f f' where
    m: "mkdir (files s) (route_dir s r) = Inr f" and
    c: "shutil_copy f fp (joinpath (route_dir s r) fn) = Inr f'" and
    rest: "copy_routes (s\<lparr>files := f'\<rparr>) fp fn rs = Inr s'"
    by (auto simp: Let_def split: sum.splits)
  have k1: "keeps c (files s) f" using m by (rule mkdir_keeps)
  then have src: "node_at f fp = Some (File c)"
    using Cons.prems(2) by (simp add: keeps_def)
  have k2: "keeps c f f'" using c src by (rule shutil_copy_keeps)
  then have src': "node_at (files (s\<lparr>files := f'\<rparr>)) fp = Some (File c)"
    using src by (simp add: keeps_def)
  from Cons.IH[OF rest src'] have
    k3: "keeps c f' (files s')" and
    ih: "\<forall>r \<in> set rs. holds_copy (files s') (joinpath (route_dir s r) fn) (path_name fp) c"
    by simp_all
  have here: "holds_copy f' (joinpath (route_dir s r) fn) (path_name fp) c"
    using c src by (rule shutil_copy_at)
  have "holds_copy (files s') (joinpath (route_dir s r) fn) (path_name fp) c"
    using k3 here by (rule holds_copy_keeps)
  moreover have "keeps c (files s) (files s')"
    using k1 k2 k3 by (blast intro: keeps_trans)
  ultimately show ?case using ih by simp
qed

subsection \<open>The examples\<close>

lemma ex_render:
  "render_output ex_deps ex_site ex_page = Inr (ex_rendered, ''x.html written'')"
  unfolding render_output_unfold
  by (simp add: ex_defs after_render_def page_engine_def is_unique_def hash_content_def
        fs_defs path_defs Let_def)

lemma ex_render_again:
  "render_output ex_deps ex_rendered ex_page = Inr (ex_rendered, ''x.html skipped'')"
  unfolding render_output_unfold
  by (simp add: ex_defs after_render_def page_engine_def is_unique_def hash_content_def
        fs_defs path_defs Let_def)

lemma ex_render_fresh:
  "render_output ex_deps ex_rendered ex_fresh = Inr (ex_refreshed, ''x.html written'')"
  unfolding render_output_unfold
  by (simp add: ex_defs after_render_def page_engine_def is_unique_def hash_content_def
        fs_defs path_defs Let_def fun_upd_twist)

section \<open>The decision to write a page\<close>

lemma is_unique_iff:
  "is_unique d s filepath page \<longleftrightarrow>
     always_refresh page \<or> \<not> path_exists (files s) filepath \<or>
     hash_content (sha1 d) page \<notin> hashes s"
  by (simp add: is_unique_def)

text \<open>
  Claim C1.  For every page and output file path, \<open>_is_unique\<close> decides to write
  exactly when the page is always refreshed, or the output file does not exist, or the
  page's fingerprint is not in the fingerprint set.  \<open>_render_output\<close> follows that
  decision: when it returns, it reports the page written if the condition holds for
  the file path it resolved (after the route's directory was made) and skipped
  otherwise.
\<close>

theorem render_decision:
  "(is_unique d s filepath page \<longleftrightarrow>
      always_refresh page \<or> \<not> path_exists (files s) filepath \<or>
      hash_content (sha1 d) page \<notin> hashes s) \<and>
   (render_output d s0 page = Inr (s', msg) \<longrightarrow>
      (\<exists>first_route more_routes f filename.
         routes page = first_route # more_routes \<and>
         mkdir (files s0) (route_dir s0 first_route) = Inr f \<and>
         with_suffix (Path (slug page)) (extension (page_engine s0 page)) = Inr filename \<and>
         msg = (if always_refresh page \<or>
                   \<not> path_exists f (joinpath (route_dir s0 first_route) filename) \<or>
                   hash_content (sha1 d) page \<notin> hashes s0
                then written filename else skipped filename)))"
proof (intro conjI impI)
  show "is_unique d s filepath page \<longleftrightarrow>
      always_refresh page \<or> \<not> path_exists (files s) filepath \<or>
      hash_content (sha1 d) page \<notin> hashes s"
    by (rule is_unique_iff)
next
  assume "render_output d s0 page = Inr (s', msg)"
  from render_output_Inr[OF this] obtain first_route more_routes f filename where
    r: "routes page = first_route # more_routes" and
    m: "mkdir (files s0) (route_dir s0 first_route) = Inr f" and
    w: "with_suffix (Path (slug page)) (extension (page_engine s0 page)) = Inr filename" and
    u: "if is_unique d (s0\<lparr>files := f\<rparr>) (joinpath (route_dir s0 first_route) filename) page
        then msg = written filename else msg = skipped filename"
    by (auto split: if_splits)
  have "msg = (if always_refresh page \<or>
                   \<not> path_exists f (joinpath (route_dir s0 first_route) filename) \<or>
                   hash_content (sha1 d) page \<notin> hashes s0
                then written filename else skipped filename)"
    using u by (simp add: is_unique_iff)
  with r m w show "\<exists>first_route more_routes f filename.
         routes page = first_route # more_routes \<and>
         mkdir (files s0) (route_dir s0 first_route) = Inr f \<and>
         with_suffix (Path (slug page)) (extension (page_engine s0 page)) = Inr filename \<and>
         msg = (if always_refresh page \<or>
                   \<not> path_exists f (joinpath (route_dir s0 first_route) filename) \<or>
                   hash_content (sha1 d) page \<notin> hashes s0
                then written filename else skipped filename)"
    by blast
qed

text \<open>
  On the example site: the page is written while its file is missing, and skipped
  once the file exists and the fingerprint is in the set.
\<close>

theorem render_decision_witness:
  "render_output ex_deps ex_site ex_page = Inr (ex_rendered, ''x.html written'') \<and>
   is_unique ex_deps ex_site [''output'', ''a'', ''x.html''] ex_page \<and>
   render_output ex_deps ex_rendered ex_page = Inr (ex_rendered, ''x.html skipped'') \<and>
   \<not> is_unique ex_deps ex_rendered [''output'', ''a'', ''x.html''] ex_page"
proof -
  have missing: "\<not> path_exists (files ex_site) [''output'', ''a'', ''x.html'']"
    by (simp add: ex_site_def fs_defs)
  have there: "path_exists (files ex_rendered) [''output'', ''a'', ''x.html'']"
    by (simp add: ex_rendered_def ex_site_def fs_defs)
  have cached: "hash_content (sha1 ex_deps) ex_page \<in> hashes ex_rendered"
    by (simp add: ex_defs hash_content_def)
  have stale: "\<not> always_refresh ex_page"
    by (simp add: ex_page_def)
  have "is_unique ex_deps ex_site [''output'', ''a'', ''x.html''] ex_page"
    using render_decision[THEN conjunct1, of ex_deps ex_site "[''output'', ''a'', ''x.html'']"
            ex_page] missing
    by blast
  moreover have "\<not> is_unique ex_deps ex_rendered [''output'', ''a'', ''x.html''] ex_page"
    using render_decision[THEN conjunct1, of ex_deps ex_rendered
            "[''output'', ''a'', ''x.html'']" ex_page] there cached stale
    by blast
  ultimately show ?thesis using ex_render ex_render_again by blast
qed

section \<open>Pages with several routes\<close>

text \<open>
  Claim C3.  Whenever \<open>_render_output\<close> returns and reports a page written, the
  engine has been called exactly once for it, and one and the same text, the one that
  call returned, is the content of the page's file under every route of the page:
  under the first route it was written, under each further route it was put by
  \<open>shutil.copy\<close> at the route's directory and the same file name (\<open>shutil.copy\<close>
  puts it inside that path, under the file's name, should the path be a directory).
  So, no such path being a directory, the files at all the routes of the page have
  the same content.
\<close>

theorem multi_route_replication:
  assumes "render_output d s page = Inr (s', written name)"
  shows "\<exists>first_route more_routes f filename content.
           routes page = first_route # more_routes \<and>
           mkdir (files s) (route_dir s first_route) = Inr f \<and>
           with_suffix (Path (slug page)) (extension (page_engine s page)) = Inr filename \<and>
           content = engine_render d (page_engine s page) (s\<lparr>files := f\<rparr>) page \<and>
           engine_calls s' = engine_calls s @ [(page_engine s page, page)] \<and>
           node_at (files s') (joinpath (route_dir s first_route) filename) =
             Some (File content) \<and>
           (\<forall>r \<in> set more_routes.
              holds_copy (files s') (joinpath (route_dir s r) filename)
                (path_name (joinpath (route_dir s first_route) filename)) content) \<and>
           ((\<forall>r \<in> set more_routes. \<not> is_dir (files s') (joinpath (route_dir s r) filename))
              \<longrightarrow>
            (\<forall>r \<in> set (routes page).
               node_at (files s') (joinpath (route_dir s r) filename) = Some (File content)))"
proof -
  from render_output_Inr[OF assms] obtain first_route more_routes f filename where
    r: "routes page = first_route # more_routes" and
    m: "mkdir (files s) (route_dir s first_route) = Inr f" and
    w: "with_suffix (Path (slug page)) (extension (page_engine s page)) = Inr filename" and
    u: "if is_unique d (s\<lparr>files := f\<rparr>) (joinpath (route_dir s first_route) filename) page
     then written name = written filename \<and>
         (\<exists>f'. write_text f (joinpath (route_dir s first_route) filename)
                  (engine_render d (page_engine s page) (s\<lparr>files := f\<rparr>) page) = Inr f' \<and>
           copy_routes (after_render d s page f')
             (joinpath (route_dir s first_route) filename) filename more_routes = Inr s')
     else s' = s\<lparr>files := f\<rparr> \<and> written name = skipped filename"
    by blast
  let ?fp = "joinpath (route_dir s first_route) filename"
  let ?c = "engine_render d (page_engine s page) (s\<lparr>files := f\<rparr>) page"
  from u obtain f' where
    wt: "write_text f ?fp ?c = Inr f'" and
    cr: "copy_routes (after_render d s page f') ?fp filename more_routes = Inr s'"
    by (auto simp: written_neq_skipped split: if_splits)
  have at: "node_at (files (after_render d s page f')) ?fp = Some (File ?c)"
    using write_text_at[OF wt] by (simp add: after_render_def)
  have rd: "route_dir (after_render d s page f') = route_dir s"
    by (rule ext) (simp add: route_dir_def after_render_def)
  from copy_routes_result[OF cr at] have
    first: "node_at (files s') ?fp = Some (File ?c)" and
    more: "\<forall>r \<in> set more_routes.
             holds_copy (files s') (joinpath (route_dir s r) filename) (path_name ?fp) ?c"
    using at by (simp_all add: keeps_def rd)
  from copy_routes_fields[OF cr] have
    calls: "engine_calls s' = engine_calls s @ [(page_engine s page, page)]"
    by (simp add: after_render_def)
  have every: "\<forall>r \<in> set (routes page).
      node_at (files s') (joinpath (route_dir s r) filename) = Some (File ?c)"
    if "\<forall>r \<in> set more_routes. \<not> is_dir (files s') (joinpath (route_dir s r) filename)"
    using that first more by (auto simp: r holds_copy_def)
  from r m w calls first more every show ?thesis by blast
qed

text \<open>
  On the example site, \<open>ex_page\<close> has the routes \<open>a\<close> and \<open>/b/\<close>: one engine call,
  and the same text in \<open>output/a/x.html\<close> and \<open>output/b/x.html\<close>.
\<close>

theorem multi_route_replication_witness:
  "render_output ex_deps ex_site ex_page = Inr (ex_rendered, written [''x.html'']) \<and>
   routes ex_page = [''a'', ''/b/''] \<and>
   engine_calls ex_site = [] \<and>
   engine_calls ex_rendered = [(ex_engine, ex_page)] \<and>
   node_at (files ex_rendered) [''output'', ''a'', ''x.html''] = Some (File ''<h1>X</h1>'') \<and>
   node_at (files ex_rendered) [''output'', ''b'', ''x.html''] = Some (File ''<h1>X</h1>'') \<and>
   \<not> is_dir (files ex_rendered) [''output'', ''b'', ''x.html'']"
proof -
  have name: "''x.html written'' = written [''x.html'']"
    by (simp add: path_defs)
  have run: "render_output ex_deps ex_site ex_page = Inr (ex_rendered, written [''x.html''])"
    using ex_render name by simp
  have eng: "page_engine ex_site ex_page = ex_engine"
    by (simp add: page_engine_def ex_page_def ex_site_def)
  have "engine_calls ex_rendered = engine_calls ex_site @ [(page_engine ex_site ex_page, ex_page)]"
    using multi_route_replication[OF run] by blast
  moreover have "engine_calls ex_site = []"
    by (simp add: ex_site_def)
  ultimately have "engine_calls ex_rendered = [(ex_engine, ex_page)]"
    by (simp add: eng)
  moreover have "routes ex_page = [''a'', ''/b/'']" "engine_calls ex_site = []"
    by (simp_all add: ex_page_def ex_site_def)
  moreover have
    "node_at (files ex_rendered) [''output'', ''a'', ''x.html''] = Some (File ''<h1>X</h1>'')"
    "node_at (files ex_rendered) [''output'', ''b'', ''x.html''] = Some (File ''<h1>X</h1>'')"
    by (simp_all add: ex_rendered_def ex_site_def fs_defs)
  moreover have "\<not> is_dir (files ex_rendered) [''output'', ''b'', ''x.html'']"
    by (simp add: ex_rendered_def ex_site_def fs_defs)
  ultimately show ?thesis using run by simp
qed

section \<open>Fingerprints\<close>

text \<open>
  Claim C10.  The fingerprint of a page is the digest of its \<open>base_content\<close> followed
  by a newline, and nothing else of the page enters it: two pages with equal
  \<open>base_content\<close> have the same fingerprint, a page without \<open>base_content\<close> has the
  fingerprint of a page whose \<open>base_content\<close> is the empty string, and so all pages
  without \<open>base_content\<close> share one fingerprint.
\<close>

theorem fingerprint_of_base_content:
  "hash_content h p = h (case base_content p of None \<Rightarrow> [] | Some c \<Rightarrow> c) @ [CHR 0x0A] \<and>
   (base_content p = base_content q \<longrightarrow> hash_content h p = hash_content h q) \<and>
   (base_content p = None \<longrightarrow> base_content q = Some [] \<longrightarrow>
      hash_content h p = hash_content h q) \<and>
   (base_content p = None \<longrightarrow> base_content q = None \<longrightarrow>
      hash_content h p = hash_content h q)"
  by (simp add: hash_content_def)

section \<open>Collections\<close>

lemmas page_setters = set_slug_def set_title_def set_routes_def set_template_def
  set_engine_def set_pages_def set_link_def


lemma pages_files [simp]: "files (snd (pages d c s)) = files s"
  by (simp add: pages_def Let_def)

lemma pages_hashes [simp]: "hashes (snd (pages d c s)) = hashes s"
  by (simp add: pages_def Let_def)


lemma pages_existing:
  "path_exists (files s) (Path (content_path c)) \<Longrightarrow>
     pages d c s =
       (heap s (content_items c) @ found_pages d c s,
        s\<lparr>heap := (heap s)(content_items c := heap s (content_items c) @ found_pages d c s)\<rparr>)"
  by (simp add: pages_def Let_def found_pages_def)

text \<open>
  Each access to \<open>pages\<close> over an existing content path appends the pages it finds
  to the list \<open>content_items\<close> itself, so the next access returns them twice.
\<close>

lemma pages_twice:
  assumes "path_exists (files s) (Path (content_path c))"
  shows "fst (pages d c (snd (pages d c s))) = fst (pages d c s) @ found_pages d c s"
proof -
  let ?s1 = "snd (pages d c s)"
  have 1: "pages d c s =
       (heap s (content_items c) @ found_pages d c s,
        s\<lparr>heap := (heap s)(content_items c := heap s (content_items c) @ found_pages d c s)\<rparr>)"
    using assms by (rule pages_existing)
  have e: "path_exists (files ?s1) (Path (content_path c))" using assms by simp
  have fp: "found_pages d c ?s1 = found_pages d c s"
    by (simp add: found_pages_def)
  show ?thesis
    unfolding pages_existing[OF e] fp by (simp add: 1)
qed

lemma archive_unfold:
  "archive d c s =
     (set_pages (py_sorted (archive_default_sort c) (archive_reverse c) (fst (pages d c s)))
        (set_title (class_name c) (set_engine None (set_slug (archive_slug c)
           (set_template (archive_template c) (archive_content_type c))))),
      snd (pages d c s))"
  by (simp add: archive_def Let_def split: prod.splits)


lemma py_sorted_mset: "mset (py_sorted key r xs) = mset xs"
  by (simp add: py_sorted_def)

lemma py_sorted_stable:
  "filter (\<lambda>x. key x = k) (py_sorted key r xs) = filter (\<lambda>x. key x = k) xs"
  by (simp add: py_sorted_def rev_filter[symmetric] sort_key_stable)

lemma py_sorted_sorted:
  "(if r then sorted (rev (map key (py_sorted key r xs)))
    else sorted (map key (py_sorted key r xs)))"
  by (simp add: py_sorted_def rev_map[symmetric])

lemma ex_pages:
  "pages ex_deps ex_blog ex_content =
     ([ex_post ''c'' ''gamma'', ex_post ''a'' ''alpha'', ex_post ''b'' ''beta''],
      ex_content\<lparr>heap := (\<lambda>a. [])
         (0 := [ex_post ''c'' ''gamma'', ex_post ''a'' ''alpha'', ex_post ''b'' ''beta''])\<rparr>)"
  by (simp add: pages_def Let_def ex_blog_def ex_content_def ex_site_def ex_deps_def
        ex_page_of_def ex_post_def page_setters fs_defs path_defs)

text \<open>
  Claim C5.  The archive of a collection is one page; its children are the pages of
  the collection (as this access to \<open>pages\<close> returns them) sorted by the collection's
  sort key: the same pages, in ascending order of the key when \<open>archive_reverse\<close> is
  false and in descending order when it is true, pages with equal keys staying in the
  order they had.  The archive's template, slug and title are the collection's
  \<open>archive_template\<close>, \<open>archive_slug\<close> and class name.
\<close>

theorem archive_children:
  "(let ps = fst (pages d c s); a = fst (archive d c s); key = archive_default_sort c in
     pages_of a = py_sorted key (archive_reverse c) ps \<and>
     mset (pages_of a) = mset ps \<and>
     (if archive_reverse c then sorted (rev (map key (pages_of a)))
      else sorted (map key (pages_of a))) \<and>
     (\<forall>k. filter (\<lambda>p. key p = k) (pages_of a) = filter (\<lambda>p. key p = k) ps) \<and>
     slug a = archive_slug c \<and> template a = archive_template c \<and> title a = class_name c \<and>
     snd (archive d c s) = snd (pages d c s))"
proof -
  let ?ps = "fst (pages d c s)" and ?key = "archive_default_sort c"
  let ?ch = "py_sorted ?key (archive_reverse c) ?ps"
  have ch: "pages_of (fst (archive d c s)) = ?ch"
    by (simp add: archive_unfold page_setters)
  have "mset ?ch = mset ?ps"
    by (rule py_sorted_mset)
  moreover have "if archive_reverse c then sorted (rev (map ?key ?ch)) else sorted (map ?key ?ch)"
    by (rule py_sorted_sorted)
  moreover have "\<forall>k. filter (\<lambda>p. ?key p = k) ?ch = filter (\<lambda>p. ?key p = k) ?ps"
    by (simp add: py_sorted_stable)
  moreover have "slug (fst (archive d c s)) = archive_slug c"
    "template (fst (archive d c s)) = archive_template c"
    "title (fst (archive d c s)) = class_name c"
    "snd (archive d c s) = snd (pages d c s)"
    by (simp_all add: archive_unfold page_setters)
  ultimately show ?thesis
    unfolding Let_def ch by simp
qed

text \<open>
  The pages with the slugs \<open>c\<close>, \<open>a\<close>, \<open>b\<close> give the children \<open>a\<close>, \<open>b\<close>, \<open>c\<close>, and
  \<open>c\<close>, \<open>b\<close>, \<open>a\<close> with \<open>archive_reverse\<close>; two pages with the slug \<open>b\<close> keep their
  order in both directions.
\<close>

theorem archive_children_witness:
  "map slug (fst (pages ex_deps ex_blog ex_content)) = [''c'', ''a'', ''b''] \<and>
   map slug (pages_of (fst (archive ex_deps ex_blog ex_content))) = [''a'', ''b'', ''c''] \<and>
   map slug (pages_of (fst (archive ex_deps (ex_blog\<lparr>archive_reverse := True\<rparr>) ex_content))) =
     [''c'', ''b'', ''a''] \<and>
   py_sorted slug False [ex_post ''b'' ''first'', ex_post ''a'' ''x'', ex_post ''b'' ''second''] =
     [ex_post ''a'' ''x'', ex_post ''b'' ''first'', ex_post ''b'' ''second''] \<and>
   py_sorted slug True [ex_post ''b'' ''first'', ex_post ''a'' ''x'', ex_post ''b'' ''second''] =
     [ex_post ''b'' ''first'', ex_post ''b'' ''second'', ex_post ''a'' ''x'']"
proof -
  have ps: "fst (pages ex_deps ex_blog ex_content) =
      [ex_post ''c'' ''gamma'', ex_post ''a'' ''alpha'', ex_post ''b'' ''beta'']"
    by (simp add: ex_pages)
  have ps': "fst (pages ex_deps (ex_blog\<lparr>archive_reverse := True\<rparr>) ex_content) =
      fst (pages ex_deps ex_blog ex_content)"
    by (simp add: pages_def Let_def)
  have k: "archive_default_sort ex_blog = slug" "\<not> archive_reverse ex_blog"
    by (simp_all add: ex_blog_def)
  have "pages_of (fst (archive ex_deps ex_blog ex_content)) =
      py_sorted slug False (fst (pages ex_deps ex_blog ex_content))"
    using archive_children[of ex_deps ex_blog ex_content] k by (simp add: Let_def)
  then have up: "map slug (pages_of (fst (archive ex_deps ex_blog ex_content))) =
      [''a'', ''b'', ''c'']"
    by (simp add: ps py_sorted_def ex_post_def)
  have "pages_of (fst (archive ex_deps (ex_blog\<lparr>archive_reverse := True\<rparr>) ex_content)) =
      py_sorted slug True (fst (pages ex_deps ex_blog ex_content))"
    using archive_children[of ex_deps "ex_blog\<lparr>archive_reverse := True\<rparr>" ex_content] k ps'
    by (simp add: Let_def)
  then have down:
    "map slug (pages_of (fst (archive ex_deps (ex_blog\<lparr>archive_reverse := True\<rparr>) ex_content))) =
      [''c'', ''b'', ''a'']"
    by (simp add: ps py_sorted_def ex_post_def)
  have "py_sorted slug False [ex_post ''b'' ''first'', ex_post ''a'' ''x'', ex_post ''b'' ''second''] =
     [ex_post ''a'' ''x'', ex_post ''b'' ''first'', ex_post ''b'' ''second'']"
    "py_sorted slug True [ex_post ''b'' ''first'', ex_post ''a'' ''x'', ex_post ''b'' ''second''] =
     [ex_post ''b'' ''first'', ex_post ''b'' ''second'', ex_post ''a'' ''x'']"
    by (simp_all add: py_sorted_def ex_post_def)
  moreover have "map slug (fst (pages ex_deps ex_blog ex_content)) = [''c'', ''a'', ''b'']"
    by (simp add: ps ex_post_def)
  ultimately show ?thesis using up down by simp
qed

text \<open>
  Two archive pages, of two collections, differ and have no \<open>base_content\<close>: they
  have the same fingerprint, the one of the empty string.
\<close>

theorem fingerprint_of_base_content_witness:
  "fst (archive ex_deps ex_blog ex_content) \<noteq>
     fst (archive ex_deps (ex_blog\<lparr>class_name := ''Notes''\<rparr>) ex_content) \<and>
   base_content (fst (archive ex_deps ex_blog ex_content)) = None \<and>
   base_content (fst (archive ex_deps (ex_blog\<lparr>class_name := ''Notes''\<rparr>) ex_content)) = None \<and>
   hash_content ex_sha1 (fst (archive ex_deps ex_blog ex_content)) =
     hash_content ex_sha1 (fst (archive ex_deps (ex_blog\<lparr>class_name := ''Notes''\<rparr>) ex_content)) \<and>
   hash_content ex_sha1 (fst (archive ex_deps ex_blog ex_content)) =
     ''da39a3ee5e6b4b0d3255bfef95601890afd80709'' @ [CHR 0x0A] \<and>
   hash_content ex_sha1 (ex_post ''a'' ''abc'') = hash_content ex_sha1 (ex_post ''b'' ''abc'')"
proof -
  let ?a = "fst (archive ex_deps ex_blog ex_content)"
  let ?b = "fst (archive ex_deps (ex_blog\<lparr>class_name := ''Notes''\<rparr>) ex_content)"
  have t: "title ?a = ''Blog''" "title ?b = ''Notes''"
    by (simp_all add: archive_unfold page_setters ex_blog_def)
  then have ne: "?a \<noteq> ?b" by auto
  have n: "base_content ?a = None" "base_content ?b = None"
    by (simp_all add: archive_unfold page_setters ex_blog_def)
  have "hash_content ex_sha1 ?a = hash_content ex_sha1 ?b"
    using fingerprint_of_base_content[of ex_sha1 ?a ?b] n by blast
  moreover have "hash_content ex_sha1 ?a =
      ex_sha1 (case base_content ?a of None \<Rightarrow> [] | Some c \<Rightarrow> c) @ [CHR 0x0A]"
    using fingerprint_of_base_content[of ex_sha1 ?a ?b] by blast
  then have "hash_content ex_sha1 ?a = ''da39a3ee5e6b4b0d3255bfef95601890afd80709'' @ [CHR 0x0A]"
    by (simp add: n ex_sha1_def)
  moreover have "base_content (ex_post ''a'' ''abc'') = base_content (ex_post ''b'' ''abc'')"
    by (simp add: ex_post_def)
  then have "hash_content ex_sha1 (ex_post ''a'' ''abc'') = hash_content ex_sha1 (ex_post ''b'' ''abc'')"
    using fingerprint_of_base_content[of ex_sha1 "ex_post ''a'' ''abc''" "ex_post ''b'' ''abc''"]
    by blast
  ultimately show ?thesis using ne n by simp
qed

section \<open>Repeated access to the pages of a collection\<close>

text \<open>
  Claim C4 says that accessing \<open>pages\<close> again over an unchanged content source
  gives the same list.  On the example collection the first access returns the three
  pages of the three files, and the second access, with the files unchanged, returns
  six pages: the three of the first access followed by the same three again.
\<close>

theorem pages_accumulate:
  "fst (pages ex_deps ex_blog ex_content) =
     [ex_post ''c'' ''gamma'', ex_post ''a'' ''alpha'', ex_post ''b'' ''beta''] \<and>
   files (snd (pages ex_deps ex_blog ex_content)) = files ex_content \<and>
   fst (pages ex_deps ex_blog (snd (pages ex_deps ex_blog ex_content))) =
     [ex_post ''c'' ''gamma'', ex_post ''a'' ''alpha'', ex_post ''b'' ''beta'',
      ex_post ''c'' ''gamma'', ex_post ''a'' ''alpha'', ex_post ''b'' ''beta''] \<and>
   fst (pages ex_deps ex_blog (snd (pages ex_deps ex_blog ex_content))) \<noteq>
     fst (pages ex_deps ex_blog ex_content)"
proof -
  have e: "path_exists (files ex_content) (Path (content_path ex_blog))"
    by (simp add: ex_content_def ex_site_def ex_blog_def fs_defs path_defs)
  have f: "found_pages ex_deps ex_blog ex_content =
      [ex_post ''c'' ''gamma'', ex_post ''a'' ''alpha'', ex_post ''b'' ''beta'']"
    by (simp add: found_pages_def ex_blog_def ex_content_def ex_site_def ex_deps_def
          ex_page_of_def ex_post_def page_setters path_defs)
  have 1: "fst (pages ex_deps ex_blog ex_content) =
      [ex_post ''c'' ''gamma'', ex_post ''a'' ''alpha'', ex_post ''b'' ''beta'']"
    by (simp add: ex_pages)
  have 2: "fst (pages ex_deps ex_blog (snd (pages ex_deps ex_blog ex_content))) =
      fst (pages ex_deps ex_blog ex_content) @ found_pages ex_deps ex_blog ex_content"
    using e by (rule pages_twice)
  show ?thesis
    unfolding 2 1 f by simp
qed

section \<open>A collection whose content path does not exist\<close>








section \<open>Subcollections\<close>
















section \<open>The render pass\<close>

lemma page_engine_eq: "default_engine s' = default_engine s \<Longrightarrow> page_engine s' = page_engine s"
  by (rule ext) (simp add: page_engine_def split: option.splits)

text \<open>What one call of \<open>_render_output\<close> reports and does to the fingerprint set.\<close>

lemma render_output_step:
  assumes "render_output d s page = Inr (s', msg)"
  shows "\<exists>filename.
     with_suffix (Path (slug page)) (extension (page_engine s page)) = Inr filename \<and>
     (msg = written filename \<or> msg = skipped filename) \<and>
     (always_refresh page \<or> hash_content (sha1 d) page \<notin> hashes s \<longrightarrow> msg = written filename) \<and>
     hashes s' = (if msg = written filename \<and> \<not> always_refresh page
                  then insert (hash_content (sha1 d) page) (hashes s) else hashes s) \<and>
     engine_calls s' = (if msg = written filename
                        then engine_calls s @ [(page_engine s page, page)] else engine_calls s) \<and>
     site_routes s' = site_routes s \<and> default_engine s' = default_engine s \<and>
     cache_file s' = cache_file s"
proof -
  from render_output_Inr[OF assms] obtain first_route more_routes f filename where
    w: "with_suffix (Path (slug page)) (extension (page_engine s page)) = Inr filename" and
    u: "if is_unique d (s\<lparr>files := f\<rparr>) (joinpath (route_dir s first_route) filename) page
     then msg = written filename \<and>
         (\<exists>f'. write_text f (joinpath (route_dir s first_route) filename)
                  (engine_render d (page_engine s page) (s\<lparr>files := f\<rparr>) page) = Inr f' \<and>
           copy_routes (after_render d s page f')
             (joinpath (route_dir s first_route) filename) filename more_routes = Inr s')
     else s' = s\<lparr>files := f\<rparr> \<and> msg = skipped filename"
    by blast
  show ?thesis
  proof (cases "is_unique d (s\<lparr>files := f\<rparr>) (joinpath (route_dir s first_route) filename) page")
    case True
    with u obtain f' where msg: "msg = written filename" and
      cr: "copy_routes (after_render d s page f')
             (joinpath (route_dir s first_route) filename) filename more_routes = Inr s'"
      by auto
    from copy_routes_fields[OF cr] msg w show ?thesis
      by (auto simp: after_render_def)
  next
    case False
    with u have s': "s' = s\<lparr>files := f\<rparr>" and msg: "msg = skipped filename" by auto
    from False have "\<not> always_refresh page" "hash_content (sha1 d) page \<in> hashes s"
      by (auto simp: is_unique_def split: if_splits)
    with s' msg w show ?thesis
      using written_neq_skipped[of filename filename] by auto
  qed
qed


lemma earlier_fingerprints_0 [simp]: "earlier_fingerprints d ps 0 = {}"
  by (simp add: earlier_fingerprints_def)

lemma earlier_fingerprints_Suc:
  "earlier_fingerprints d (p # ps) (Suc i) =
     (if always_refresh p then {} else {hash_content (sha1 d) p}) \<union> earlier_fingerprints d ps i"
  by (auto simp: earlier_fingerprints_def)

lemma render_pages_result:
  assumes "render_pages d ps s = Inr (s', msgs)"
  shows "length msgs = length ps \<and> site_routes s' = site_routes s \<and>
     default_engine s' = default_engine s \<and> cache_file s' = cache_file s \<and>
     length (engine_calls s') = length (engine_calls s) + length (filter reports_written msgs) \<and>
     (\<forall>i<length ps. \<exists>filename.
        with_suffix (Path (slug (ps ! i))) (extension (page_engine s (ps ! i))) = Inr filename \<and>
        (msgs ! i = written filename \<or> msgs ! i = skipped filename) \<and>
        (always_refresh (ps ! i) \<or>
         hash_content (sha1 d) (ps ! i) \<notin> hashes s \<union> earlier_fingerprints d ps i
           \<longrightarrow> msgs ! i = written filename))"
  using assms
proof (induction ps arbitrary: s msgs)
  case Nil
  then show ?case by simp
next
  case (Cons p ps)
  from Cons.prems obtain s1 msg msgs' where
    one: "render_output d s p = Inr (s1, msg)" and
    rest: "render_pages d ps s1 = Inr (s', msgs')" and
    msgs: "msgs = msg # msgs'"
    by (auto split: sum.splits prod.splits)
  from render_output_step[OF one] obtain filename where
    w: "with_suffix (Path (slug p)) (extension (page_engine s p)) = Inr filename" and
    m: "msg = written filename \<or> msg = skipped filename" and
    wr: "always_refresh p \<or> hash_content (sha1 d) p \<notin> hashes s \<longrightarrow> msg = written filename" and
    h: "hashes s1 = (if msg = written filename \<and> \<not> always_refresh p
                  then insert (hash_content (sha1 d) p) (hashes s) else hashes s)" and
    e: "engine_calls s1 = (if msg = written filename
                        then engine_calls s @ [(page_engine s p, p)] else engine_calls s)" and
    f: "site_routes s1 = site_routes s" "default_engine s1 = default_engine s"
       "cache_file s1 = cache_file s"
    by blast
  note ih = Cons.IH[OF rest]
  have pe: "page_engine s1 = page_engine s" using f(2) by (rule page_engine_eq)
  have rw: "reports_written msg \<longleftrightarrow> msg = written filename"
    using m by (auto simp: reports_written_def written_neq_skipped[symmetric])
  have calls: "length (engine_calls s') =
      length (engine_calls s) + length (filter reports_written msgs)"
    using ih e rw by (simp add: msgs)
  have hs: "hashes s1 \<subseteq> hashes s \<union> (if always_refresh p then {} else {hash_content (sha1 d) p})"
    using h by auto
  have each: "\<exists>filename.
        with_suffix (Path (slug ((p # ps) ! i))) (extension (page_engine s ((p # ps) ! i))) =
          Inr filename \<and>
        (msgs ! i = written filename \<or> msgs ! i = skipped filename) \<and>
        (always_refresh ((p # ps) ! i) \<or>
         hash_content (sha1 d) ((p # ps) ! i) \<notin> hashes s \<union> earlier_fingerprints d (p # ps) i
           \<longrightarrow> msgs ! i = written filename)"
    if "i < length (p # ps)" for i
  proof (cases i)
    case 0
    with w m wr show ?thesis by (simp add: msgs)
  next
    case (Suc j)
    with that have j: "j < length ps" by simp
    with ih obtain fn where
      "with_suffix (Path (slug (ps ! j))) (extension (page_engine s1 (ps ! j))) = Inr fn"
      "msgs' ! j = written fn \<or> msgs' ! j = skipped fn"
      "always_refresh (ps ! j) \<or>
         hash_content (sha1 d) (ps ! j) \<notin> hashes s1 \<union> earlier_fingerprints d ps j
           \<longrightarrow> msgs' ! j = written fn"
      by blast
    moreover have "hash_content (sha1 d) (ps ! j) \<notin> hashes s1 \<union> earlier_fingerprints d ps j"
      if "hash_content (sha1 d) (ps ! j) \<notin> hashes s \<union> earlier_fingerprints d (p # ps) (Suc j)"
      using that hs by (auto simp: earlier_fingerprints_Suc split: if_splits)
    ultimately show ?thesis
      unfolding Suc msgs pe by (intro exI[of _ fn]) auto
  qed
  from ih f calls each show ?case by (simp add: msgs)
qed


lemma frame_refl [simp]: "frame s s"
  by (simp add: frame_def)

lemma frame_trans: "frame s s1 \<Longrightarrow> frame s1 s2 \<Longrightarrow> frame s s2"
  by (simp add: frame_def)

lemma pages_frame: "frame s (snd (pages d c s))"
  by (simp add: frame_def pages_def Let_def)

lemma subcollection_keys_frame:
  "subcollection_keys d xs s = Inr (ks, s') \<Longrightarrow> frame s s'"
proof (induction xs arbitrary: s ks)
  case Nil
  then show ?case by simp
next
  case (Cons x xs)
  from Cons.prems obtain ks' where
    rest: "subcollection_keys d xs (snd (pages d x s)) = Inr (ks', s')"
    by (auto simp: Let_def split: prod.splits option.splits sum.splits)
  from pages_frame Cons.IH[OF rest] show ?case by (rule frame_trans)
qed

lemma append_archive_frame: "append_archive d c s = Inr s' \<Longrightarrow> frame s s'"
  using pages_frame[of s d c]
  by (auto simp: append_archive_def archive_unfold Let_def frame_def split: sum.splits)

lemma append_group_frame: "append_group d g sg subs s = Inr s' \<Longrightarrow> frame s s'"
proof (induction subs arbitrary: s)
  case Nil
  then show ?case by simp
next
  case (Cons sub subs)
  let ?s0 = "s\<lparr>site_subcollections := AList.update g sg (site_subcollections s)\<rparr>"
  from Cons.prems obtain s1 where
    a: "append_archive d sub ?s0 = Inr s1" and rest: "append_group d g sg subs s1 = Inr s'"
    by (auto simp: Let_def split: sum.splits)
  have "frame s ?s0" by (simp add: frame_def)
  with append_archive_frame[OF a] Cons.IH[OF rest] show ?case
    by (blast intro: frame_trans)
qed

lemma heap_frame: "frame s (s\<lparr>heap := h\<rparr>)"
  by (simp add: frame_def)

lemma render_group_frame: "render_group d c g s = Inr s' \<Longrightarrow> frame s s'"
proof -
  assume "render_group d c g s = Inr s'"
  then obtain groups h members ks s2 where
    "subcollection_keys d members (s\<lparr>heap := h\<rparr>) = Inr (ks, s2)"
    "append_group d g (sorted_by_keys ks members) (sorted_by_keys ks members) s2 = Inr s'"
    by (auto simp: render_group_def Let_def split: sum.splits option.splits prod.splits)
  with heap_frame[of s h] show ?thesis
    by (blast intro: frame_trans dest: subcollection_keys_frame append_group_frame)
qed

lemma render_groups_frame: "render_groups d c gs s = Inr s' \<Longrightarrow> frame s s'"
proof (induction gs arbitrary: s)
  case Nil
  then show ?case by simp
next
  case (Cons g gs)
  then obtain s1 where "render_group d c g s = Inr s1" "render_groups d c gs s1 = Inr s'"
    by (auto split: sum.splits)
  with Cons.IH show ?case
    by (blast intro: frame_trans dest: render_group_frame)
qed

lemma render_collections_frame: "render_collections d cs s = Inr s' \<Longrightarrow> frame s s'"
proof (induction cs arbitrary: s)
  case Nil
  then show ?case by simp
next
  case (Cons c cs)
  show ?case
  proof (cases "subcollections c = []")
    case True
    with Cons show ?thesis by simp
  next
    case False
    with Cons.prems obtain gs h s2 where
      "render_groups d c gs (s\<lparr>heap := h\<rparr>) = Inr s2"
      "render_collections d cs s2 = Inr s'"
      by (auto split: sum.splits prod.splits)
    with Cons.IH heap_frame[of s h] show ?thesis
      by (blast intro: frame_trans dest: render_groups_frame)
  qed
qed

lemma earlier_fingerprints_all:
  "earlier_fingerprints d ps (length ps) =
     hash_content (sha1 d) ` {p \<in> set ps. \<not> always_refresh p}"
  by (simp add: earlier_fingerprints_def)

lemma render_pages_hashes:
  assumes "render_pages d ps s = Inr (s', msgs)"
  shows "hashes s \<subseteq> hashes s' \<and>
     hashes s' \<subseteq> hashes s \<union> earlier_fingerprints d ps (length ps) \<and>
     (\<forall>i<length ps. reports_written (msgs ! i) \<longrightarrow> \<not> always_refresh (ps ! i) \<longrightarrow>
        hash_content (sha1 d) (ps ! i) \<in> hashes s')"
  using assms
proof (induction ps arbitrary: s msgs)
  case Nil
  then show ?case by simp
next
  case (Cons p ps)
  from Cons.prems obtain s1 msg msgs' where
    one: "render_output d s p = Inr (s1, msg)" and
    rest: "render_pages d ps s1 = Inr (s', msgs')" and
    msgs: "msgs = msg # msgs'"
    by (auto split: sum.splits prod.splits)
  from render_output_step[OF one] obtain filename where
    m: "msg = written filename \<or> msg = skipped filename" and
    h: "hashes s1 = (if msg = written filename \<and> \<not> always_refresh p
                  then insert (hash_content (sha1 d) p) (hashes s) else hashes s)"
    by blast
  have rw: "reports_written msg \<longleftrightarrow> msg = written filename"
    using m by (auto simp: reports_written_def written_neq_skipped[symmetric])
  from Cons.IH[OF rest] have
    mono: "hashes s1 \<subseteq> hashes s'" and
    upper: "hashes s' \<subseteq> hashes s1 \<union> earlier_fingerprints d ps (length ps)" and
    added: "\<forall>i<length ps. reports_written (msgs' ! i) \<longrightarrow> \<not> always_refresh (ps ! i) \<longrightarrow>
        hash_content (sha1 d) (ps ! i) \<in> hashes s'"
    by simp_all
  have 1: "hashes s \<subseteq> hashes s'" using h mono by (auto split: if_splits)
  have 2: "hashes s' \<subseteq> hashes s \<union> earlier_fingerprints d (p # ps) (length (p # ps))"
    using h upper by (auto simp: earlier_fingerprints_Suc split: if_splits)
  have 3: "hash_content (sha1 d) ((p # ps) ! i) \<in> hashes s'"
    if "i < length (p # ps)" "reports_written (msgs ! i)" "\<not> always_refresh ((p # ps) ! i)" for i
  proof (cases i)
    case 0
    with that rw h mono show ?thesis by (auto simp: msgs)
  next
    case (Suc j)
    with that added show ?thesis by (simp add: msgs)
  qed
  from 1 2 3 show ?case by blast
qed

text \<open>The steps of a render pass that returns.\<close>

lemma render_Inr:
  assumes "render d s verbose dry_run strict_arg = Inr (s', msgs)"
  shows "\<exists>s1 s3 s4.
     (if strict s \<or> (strict_arg \<and> \<not> dry_run) then clean_output s = Inr s1 else s1 = s) \<and>
     hashes s3 = hashes s1 \<and> engine_calls s3 = engine_calls s \<and>
     render_pages d (site_routes s3) s3 = Inr (s4, msgs) \<and>
     site_routes s' = site_routes s3 \<and> page_engine s' = page_engine s3 \<and>
     hashes s' = hashes s4 \<and> engine_calls s' = engine_calls s4 \<and>
     write_cache d s4 = Inr s'"
proof -
  let ?eff = "strict s \<or> (strict_arg \<and> \<not> dry_run)"
  have eff: "(strict s \<or> (if dry_run then False else strict_arg)) = ?eff" by auto
  from assms obtain s1 f s2 s3 s4 where
    c: "(if ?eff then clean_output s else Inr s) = Inr s1" and
    m: "mkdir (files s1) (output_path s1) = Inr f" and
    st: "copy_static d (s1\<lparr>files := f\<rparr>) = Inr s2" and
    sub: "render_subcollections d s2 = Inr s3" and
    rp: "render_pages d (site_routes s3) s3 = Inr (s4, msgs)" and
    wc: "write_cache d s4 = Inr s'"
    unfolding render_def Let_def eff
    by (auto split: sum.splits prod.splits)
  have c': "if ?eff then clean_output s = Inr s1 else s1 = s"
    using c by (auto split: if_splits)
  have e1: "engine_calls s1 = engine_calls s"
    using c by (auto simp: clean_output_def split: sum.splits if_splits)
  from st have h2: "hashes s2 = hashes s1" and e2: "engine_calls s2 = engine_calls s"
    using e1 by (auto simp: copy_static_def split: sum.splits if_splits)
  from render_collections_frame[OF sub[unfolded render_subcollections_def]] have
    h3: "hashes s3 = hashes s1" and e3: "engine_calls s3 = engine_calls s"
    using h2 e2 by (simp_all add: frame_def)
  from wc have s': "site_routes s' = site_routes s4" "default_engine s' = default_engine s4"
    "engine_calls s' = engine_calls s4" "hashes s' = hashes s4"
    by (auto simp: write_cache_def split: sum.splits)
  note r = render_pages_result[OF rp]
  have routes: "site_routes s' = site_routes s3" using r s' by simp
  have pe: "page_engine s' = page_engine s3"
    using r s' by (intro page_engine_eq) simp
  from c' h3 e3 rp routes pe s' wc show ?thesis by blast
qed

lemmas render_defs = render_def clean_output_def copy_static_def render_subcollections_def
  write_cache_def render_output_unfold after_render_def page_engine_def is_unique_def
  hash_content_def Let_def








section \<open>Pages that are always refreshed\<close>

text \<open>
  Claim C2.  Whenever \<open>_render_output\<close> returns for a page with \<open>always_refresh\<close>
  set, whatever the fingerprint set and the file system were, the engine has rendered
  the page, the page's output file holds the rendered text, the page is reported
  written, and the fingerprint set is the one from before the call.  Whenever it
  reports a page without \<open>always_refresh\<close> as written, the page's fingerprint has
  been added to the set.  For a whole render pass that returns: every always refreshed
  page of the registry is reported written, the fingerprint of every page written
  without \<open>always_refresh\<close> is in the set at the end, and the set at the end holds
  nothing but what it held at the start and the fingerprints of the pages of the
  registry without \<open>always_refresh\<close>.
\<close>

theorem always_refresh_render:
  "(always_refresh page \<longrightarrow> render_output d s page = Inr (s', msg) \<longrightarrow>
      (\<exists>first_route more_routes f filename.
         routes page = first_route # more_routes \<and>
         mkdir (files s) (route_dir s first_route) = Inr f \<and>
         with_suffix (Path (slug page)) (extension (page_engine s page)) = Inr filename \<and>
         msg = written filename \<and>
         engine_calls s' = engine_calls s @ [(page_engine s page, page)] \<and>
         node_at (files s') (joinpath (route_dir s first_route) filename) =
           Some (File (engine_render d (page_engine s page) (s\<lparr>files := f\<rparr>) page)) \<and>
         hashes s' = hashes s)) \<and>
   (\<not> always_refresh page \<longrightarrow> render_output d s page = Inr (s', written name) \<longrightarrow>
      hashes s' = insert (hash_content (sha1 d) page) (hashes s)) \<and>
   (render d s0 verbose dry_run strict_arg = Inr (s1, msgs) \<longrightarrow>
      length msgs = length (site_routes s1) \<and>
      (\<forall>i<length (site_routes s1).
         always_refresh (site_routes s1 ! i) \<longrightarrow> reports_written (msgs ! i)) \<and>
      (\<forall>i<length (site_routes s1).
         reports_written (msgs ! i) \<longrightarrow> \<not> always_refresh (site_routes s1 ! i) \<longrightarrow>
         hash_content (sha1 d) (site_routes s1 ! i) \<in> hashes s1) \<and>
      hashes s1 \<subseteq> hashes s0 \<union>
        hash_content (sha1 d) ` {p \<in> set (site_routes s1). \<not> always_refresh p})"
proof (intro conjI impI)
  assume ar: "always_refresh page" and ok: "render_output d s page = Inr (s', msg)"
  from render_output_Inr[OF ok] obtain first_route more_routes f filename where
    r: "routes page = first_route # more_routes" and
    m: "mkdir (files s) (route_dir s first_route) = Inr f" and
    w: "with_suffix (Path (slug page)) (extension (page_engine s page)) = Inr filename" and
    u: "if is_unique d (s\<lparr>files := f\<rparr>) (joinpath (route_dir s first_route) filename) page
     then msg = written filename \<and>
         (\<exists>f'. write_text f (joinpath (route_dir s first_route) filename)
                  (engine_render d (page_engine s page) (s\<lparr>files := f\<rparr>) page) = Inr f' \<and>
           copy_routes (after_render d s page f')
             (joinpath (route_dir s first_route) filename) filename more_routes = Inr s')
     else s' = s\<lparr>files := f\<rparr> \<and> msg = skipped filename"
    by blast
  let ?fp = "joinpath (route_dir s first_route) filename"
  let ?c = "engine_render d (page_engine s page) (s\<lparr>files := f\<rparr>) page"
  have "is_unique d (s\<lparr>files := f\<rparr>) ?fp page" using ar by (simp add: is_unique_def)
  with u obtain f' where
    msg: "msg = written filename" and
    wt: "write_text f ?fp ?c = Inr f'" and
    cr: "copy_routes (after_render d s page f') ?fp filename more_routes = Inr s'"
    by auto
  have at: "node_at (files (after_render d s page f')) ?fp = Some (File ?c)"
    using write_text_at[OF wt] by (simp add: after_render_def)
  from copy_routes_result[OF cr at] have "node_at (files s') ?fp = Some (File ?c)"
    using at by (simp add: keeps_def)
  moreover from copy_routes_fields[OF cr] have
    "engine_calls s' = engine_calls s @ [(page_engine s page, page)]" "hashes s' = hashes s"
    using ar by (simp_all add: after_render_def)
  ultimately show "\<exists>first_route more_routes f filename.
         routes page = first_route # more_routes \<and>
         mkdir (files s) (route_dir s first_route) = Inr f \<and>
         with_suffix (Path (slug page)) (extension (page_engine s page)) = Inr filename \<and>
         msg = written filename \<and>
         engine_calls s' = engine_calls s @ [(page_engine s page, page)] \<and>
         node_at (files s') (joinpath (route_dir s first_route) filename) =
           Some (File (engine_render d (page_engine s page) (s\<lparr>files := f\<rparr>) page)) \<and>
         hashes s' = hashes s"
    using r m w msg by blast
next
  assume nar: "\<not> always_refresh page" and ok: "render_output d s page = Inr (s', written name)"
  from render_output_Inr[OF ok] obtain first_route more_routes f filename where
    u: "if is_unique d (s\<lparr>files := f\<rparr>) (joinpath (route_dir s first_route) filename) page
     then written name = written filename \<and>
         (\<exists>f'. write_text f (joinpath (route_dir s first_route) filename)
                  (engine_render d (page_engine s page) (s\<lparr>files := f\<rparr>) page) = Inr f' \<and>
           copy_routes (after_render d s page f')
             (joinpath (route_dir s first_route) filename) filename more_routes = Inr s')
     else s' = s\<lparr>files := f\<rparr> \<and> written name = skipped filename"
    by blast
  then obtain f' where
    cr: "copy_routes (after_render d s page f')
             (joinpath (route_dir s first_route) filename) filename more_routes = Inr s'"
    by (auto simp: written_neq_skipped split: if_splits)
  from copy_routes_fields[OF cr] show "hashes s' = insert (hash_content (sha1 d) page) (hashes s)"
    using nar by (simp add: after_render_def)
next
  assume run: "render d s0 verbose dry_run strict_arg = Inr (s1, msgs)"
  from render_Inr[OF run] obtain t1 t3 t4 where
    c: "if strict s0 \<or> (strict_arg \<and> \<not> dry_run) then clean_output s0 = Inr t1 else t1 = s0" and
    h3: "hashes t3 = hashes t1" and
    rp: "render_pages d (site_routes t3) t3 = Inr (t4, msgs)" and
    r: "site_routes s1 = site_routes t3" and
    h: "hashes s1 = hashes t4"
    by blast
  have h1: "hashes t1 \<subseteq> hashes s0"
    using c by (auto simp: clean_output_def split: if_splits sum.splits)
  note res = render_pages_result[OF rp] and hs = render_pages_hashes[OF rp]
  have len: "length msgs = length (site_routes s1)"
    using res by (simp add: r)
  have fresh: "\<forall>i<length (site_routes s1).
         always_refresh (site_routes s1 ! i) \<longrightarrow> reports_written (msgs ! i)"
    unfolding r using res by (auto simp: reports_written_def)
  have added: "\<forall>i<length (site_routes s1).
         reports_written (msgs ! i) \<longrightarrow> \<not> always_refresh (site_routes s1 ! i) \<longrightarrow>
         hash_content (sha1 d) (site_routes s1 ! i) \<in> hashes s1"
    unfolding r h using hs by blast
  have "hashes s1 \<subseteq> hashes t3 \<union> earlier_fingerprints d (site_routes t3) (length (site_routes t3))"
    unfolding h using hs by blast
  then have upper: "hashes s1 \<subseteq> hashes s0 \<union>
        hash_content (sha1 d) ` {p \<in> set (site_routes s1). \<not> always_refresh p}"
    using h1 h3 by (auto simp: earlier_fingerprints_all r)
  show "length msgs = length (site_routes s1)"
    by (rule len)
  show "\<forall>i<length (site_routes s1).
         always_refresh (site_routes s1 ! i) \<longrightarrow> reports_written (msgs ! i)"
    by (rule fresh)
  show "\<forall>i<length (site_routes s1).
         reports_written (msgs ! i) \<longrightarrow> \<not> always_refresh (site_routes s1 ! i) \<longrightarrow>
         hash_content (sha1 d) (site_routes s1 ! i) \<in> hashes s1"
    by (rule added)
  show "hashes s1 \<subseteq> hashes s0 \<union>
        hash_content (sha1 d) ` {p \<in> set (site_routes s1). \<not> always_refresh p}"
    by (rule upper)
qed

text \<open>
  On the example site after a first render: \<open>ex_fresh\<close> is written although its file
  exists and its fingerprint is in the set, and the set stays as it was; \<open>ex_page\<close>,
  not always refreshed, had its fingerprint added when it was written.  A pass over
  both pages skips \<open>ex_page\<close> and writes \<open>ex_fresh\<close>.
\<close>

lemma ex_again_run:
  "\<exists>s'. render ex_deps ex_again False False False =
     Inr (s', [''x.html skipped'', ''x.html written'']) \<and>
     site_routes s' = [ex_page, ex_fresh] \<and> hashes s' = hashes ex_again"
  by (simp add: render_defs ex_again_def ex_defs fs_defs path_defs)

theorem always_refresh_render_witness:
  "always_refresh ex_fresh \<and>
   render_output ex_deps ex_rendered ex_fresh = Inr (ex_refreshed, ''x.html written'') \<and>
   path_exists (files ex_rendered) [''output'', ''a'', ''x.html''] \<and>
   hash_content (sha1 ex_deps) ex_fresh \<in> hashes ex_rendered \<and>
   hashes ex_refreshed = hashes ex_rendered \<and>
   \<not> always_refresh ex_page \<and>
   render_output ex_deps ex_site ex_page = Inr (ex_rendered, written [''x.html'']) \<and>
   hashes ex_rendered = insert (hash_content (sha1 ex_deps) ex_page) (hashes ex_site) \<and>
   (\<exists>s'. render ex_deps ex_again False False False =
      Inr (s', [''x.html skipped'', ''x.html written'']) \<and>
      site_routes s' = [ex_page, ex_fresh] \<and> hashes s' = hashes ex_again \<and>
      reports_written ([''x.html skipped'', ''x.html written''] ! 1))"
proof -
  have fresh: "always_refresh ex_fresh"
    by (simp add: ex_fresh_def)
  have stale: "\<not> always_refresh ex_page"
    by (simp add: ex_page_def)
  have there: "path_exists (files ex_rendered) [''output'', ''a'', ''x.html'']"
    by (simp add: ex_rendered_def ex_site_def fs_defs)
  have cached: "hash_content (sha1 ex_deps) ex_fresh \<in> hashes ex_rendered"
    by (simp add: ex_defs hash_content_def)
  have name: "''x.html written'' = written [''x.html'']"
    by (simp add: path_defs)
  have "hashes ex_refreshed = hashes ex_rendered"
    using always_refresh_render[THEN conjunct1, of ex_fresh ex_deps ex_rendered ex_refreshed
            "''x.html written''"] fresh ex_render_fresh
    by blast
  moreover have "hashes ex_rendered = insert (hash_content (sha1 ex_deps) ex_page) (hashes ex_site)"
    using always_refresh_render[THEN conjunct2, THEN conjunct1, of ex_page ex_deps ex_site
            ex_rendered "[''x.html'']"] stale ex_render name
    by simp
  moreover have "\<exists>s'. render ex_deps ex_again False False False =
      Inr (s', [''x.html skipped'', ''x.html written'']) \<and>
      site_routes s' = [ex_page, ex_fresh] \<and> hashes s' = hashes ex_again \<and>
      reports_written ([''x.html skipped'', ''x.html written''] ! 1)"
  proof -
    from ex_again_run obtain s' where
      run: "render ex_deps ex_again False False False =
        Inr (s', [''x.html skipped'', ''x.html written''])" and
      r: "site_routes s' = [ex_page, ex_fresh]" and h: "hashes s' = hashes ex_again"
      by blast
    have "\<forall>i<length (site_routes s').
         always_refresh (site_routes s' ! i) \<longrightarrow>
         reports_written ([''x.html skipped'', ''x.html written''] ! i)"
      using always_refresh_render[THEN conjunct2, THEN conjunct2, of ex_deps ex_again
              False False False s' "[''x.html skipped'', ''x.html written'']"] run
      by blast
    then have "reports_written ([''x.html skipped'', ''x.html written''] ! 1)"
      using fresh r by (auto dest!: spec[of _ "Suc 0"])
    with run r h show ?thesis by blast
  qed
  ultimately show ?thesis
    using fresh stale there cached ex_render ex_render_fresh name by simp
qed

section \<open>The cache file\<close>















lemma hash_content_line: "is_hexdigest (h x) \<Longrightarrow>
    hash_content h p = h (case base_content p of None \<Rightarrow> [] | Some c \<Rightarrow> c) @ [LF]"
  by (simp add: hash_content_def LF_def)







end
